theory Spec2Isabelle
  imports Complex_Main
begin

section \<open>Credential pool (gemini.ts, lines 4-40)\<close>

text \<open>
  The pool \<open>API_KEYS\<close> is a list of key strings, fixed when the module is loaded;
  loading throws when the filtered list is empty (lines 16-18), so every function below
  runs with a non-empty pool. \<open>keyUsageCount\<close> is a JavaScript \<open>Map\<close> from key to
  count; the counts are only ever produced by \<open>+ 1\<close> from \<open>0\<close>, so they are naturals.
\<close>

type_synonym usage_map = "string \<rightharpoonup> nat"

text \<open>\<^verbatim>\<open>keyUsageCount.get(key) || 0\<close>: a missing entry (and a zero entry) reads as 0.\<close>

definition usage_of :: "usage_map \<Rightarrow> string \<Rightarrow> nat" where
  "usage_of m key = (case m key of None \<Rightarrow> 0 | Some n \<Rightarrow> n)"

text \<open>The \<^verbatim>\<open>for (const key of API_KEYS)\<close> loop of \<open>getNextApiKey\<close>, with its two
  local variables as the accumulator.\<close>

fun scan_keys :: "usage_map \<Rightarrow> string list \<Rightarrow> string \<times> nat \<Rightarrow> string \<times> nat" where
  "scan_keys m [] best = best"
| "scan_keys m (key # ks) (bestKey, minUsage) =
     (let usage = usage_of m key in
      if usage < minUsage then scan_keys m ks (key, usage)
      else scan_keys m ks (bestKey, minUsage))"

text \<open>\<open>getNextApiKey\<close> returns the chosen key together with the updated map. The
  empty pool has no equation: the module does not load with one.\<close>

fun getNextApiKey :: "string list \<Rightarrow> usage_map \<Rightarrow> string \<times> usage_map" where
  "getNextApiKey (k0 # rest) m =
     (let (bestKey, minUsage) = scan_keys m (k0 # rest) (k0, usage_of m k0)
      in (bestKey, m(bestKey \<mapsto> usage_of m bestKey + 1)))"

text \<open>\<open>n\<close> consecutive calls of \<open>getNextApiKey\<close>; only the counters are kept.\<close>

fun acquire_many :: "string list \<Rightarrow> nat \<Rightarrow> usage_map \<Rightarrow> usage_map" where
  "acquire_many API_KEYS 0 m = m"
| "acquire_many API_KEYS (Suc n) m = acquire_many API_KEYS n (snd (getNextApiKey API_KEYS m))"

text \<open>Balance of the counters over the pool: no two differ by more than one.\<close>

definition balanced :: "string list \<Rightarrow> usage_map \<Rightarrow> bool" where
  "balanced API_KEYS m =
     list_all (\<lambda>k. list_all (\<lambda>k'. usage_of m k \<le> usage_of m k' + 1) API_KEYS) API_KEYS"


section \<open>Strings and numbers of the JavaScript runtime\<close>

text \<open>
  JavaScript strings are modelled as lists of 8-bit characters. On that range the
  white space of \<^verbatim>\<open>\s\<close>, of \<^verbatim>\<open>trim\<close> and of \<^verbatim>\<open>parseInt\<close> is tab, line feed,
  vertical tab, form feed, carriage return, space and the no-break space.
\<close>

definition is_space :: "char \<Rightarrow> bool" where
  "is_space c = (c \<in> set [CHR 0x09, CHR 0x0A, CHR 0x0B, CHR 0x0C, CHR 0x0D, CHR '' '', CHR 0xA0])"

text \<open>\<^verbatim>\<open>s.startsWith(p)\<close> and \<^verbatim>\<open>s.includes(sub)\<close>.\<close>

fun starts_with :: "string \<Rightarrow> string \<Rightarrow> bool" where
  "starts_with s [] = True"
| "starts_with [] (p # ps) = False"
| "starts_with (c # cs) (p # ps) = (c = p \<and> starts_with cs ps)"

fun str_includes :: "string \<Rightarrow> string \<Rightarrow> bool" where
  "str_includes [] sub = (sub = [])"
| "str_includes (c # cs) sub = (starts_with (c # cs) sub \<or> str_includes cs sub)"

text \<open>\<^verbatim>\<open>s.trim()\<close> removes white space at both ends.\<close>

definition trim :: "string \<Rightarrow> string" where
  "trim s = rev (dropWhile is_space (rev (dropWhile is_space s)))"

text \<open>Decimal rendering of a non-negative integer, as \<^verbatim>\<open>toString()\<close> and template
  literals produce it.\<close>

definition digit_char :: "nat \<Rightarrow> char" where
  "digit_char d = ''0123456789'' ! d"

fun show_nat :: "nat \<Rightarrow> string" where
  "show_nat n = (if n < 10 then [digit_char n] else show_nat (n div 10) @ [digit_char (n mod 10)])"

declare show_nat.simps [simp del]

text \<open>
  \<^verbatim>\<open>parseInt(s)\<close> without a radix: leading white space is skipped, one sign is read, a
  prefix \<^verbatim>\<open>0x\<close> or \<^verbatim>\<open>0X\<close> selects radix 16, and the longest run of digits of the radix
  is the value; with no digit the result is \<^verbatim>\<open>NaN\<close>, here \<open>None\<close>. The value is kept
  exact: rounding to a double is monotone and leaves the integers near 2000 alone, which
  is all the callers compare against.
\<close>

fun index_of :: "char \<Rightarrow> string \<Rightarrow> nat option" where
  "index_of c [] = None"
| "index_of c (d # ds) = (if c = d then Some 0 else map_option Suc (index_of c ds))"

definition digit_value :: "nat \<Rightarrow> char \<Rightarrow> nat option" where
  "digit_value R c =
     (case index_of c ''0123456789abcdef'' of
        Some d \<Rightarrow> if d < R then Some d else None
      | None \<Rightarrow>
          (case index_of c ''ABCDEF'' of
             Some d \<Rightarrow> if d + 10 < R then Some (d + 10) else None
           | None \<Rightarrow> None))"

definition parse_digits :: "nat \<Rightarrow> string \<Rightarrow> nat option" where
  "parse_digits R s =
     (let ds = takeWhile (\<lambda>c. digit_value R c \<noteq> None) s in
      if ds = [] then None
      else Some (foldl (\<lambda>acc c. acc * R + the (digit_value R c)) 0 ds))"

definition parseInt :: "string \<Rightarrow> int option" where
  "parseInt s =
     (let S = dropWhile is_space s;
          (neg, S1) = (case S of
                         [] \<Rightarrow> (False, S)
                       | c # cs \<Rightarrow> if c = CHR ''-'' then (True, cs)
                                   else if c = CHR ''+'' then (False, cs) else (False, S));
          (R, S2) = (if starts_with S1 ''0x'' \<or> starts_with S1 ''0X''
                     then (16, drop 2 S1) else (10, S1))
      in map_option (\<lambda>n. if neg then - int n else int n) (parse_digits R S2))"

section \<open>Errors and the external model call\<close>

text \<open>A thrown value is an \<^verbatim>\<open>Error\<close> with an optional message (the handlers read it with
  \<^verbatim>\<open>error.message?.\<close>).\<close>

datatype js_error = Error (message: "string option")

text \<open>\<^verbatim>\<open>error.message?.includes('429') || error.message?.includes('quota')\<close>\<close>

definition is_rate_limit :: "js_error \<Rightarrow> bool" where
  "is_rate_limit error =
     (case message error of
        None \<Rightarrow> False
      | Some msg \<Rightarrow> str_includes msg ''429'' \<or> str_includes msg ''quota'')"

text \<open>\<^verbatim>\<open>${error.message}\<close> inside a template literal.\<close>

definition message_text :: "js_error \<Rightarrow> string" where
  "message_text error = (case message error of None \<Rightarrow> ''undefined'' | Some msg \<Rightarrow> msg)"

text \<open>
  The process state that the calls touch: the usage counters and, as a record of what
  was sent out, the key of every \<^verbatim>\<open>generateContent\<close> request issued so far (oldest
  first). The external model is a parameter \<open>generateContent\<close>: given the number of
  requests issued before and the key, it yields the response text or the thrown error.
  Prompts, images and the page memory only feed the request and are not modelled; the
  waits between calls (\<^verbatim>\<open>setTimeout\<close>) take time and change nothing else.
\<close>

record world =
  keyUsageCount :: usage_map
  requests :: "string list"

type_synonym model_call = "nat \<Rightarrow> string \<Rightarrow> js_error + string"

text \<open>One attempt up to \<^verbatim>\<open>response.text()\<close>: acquire a key, send the request.\<close>

definition call_model :: "string list \<Rightarrow> model_call \<Rightarrow> world \<Rightarrow> (js_error + string) \<times> world" where
  "call_model API_KEYS generateContent w =
     (let (apiKey, counts) = getNextApiKey API_KEYS (keyUsageCount w)
      in (generateContent (length (requests w)) apiKey,
          w\<lparr>keyUsageCount := counts, requests := requests w @ [apiKey]\<rparr>))"

section \<open>Extracted questions and the response decoder\<close>

text \<open>
  The interface \<open>ExtractedQuestion\<close>. The type tag is kept as the string that came
  out of the decoded JSON (the cast to the interface checks nothing, and the save filter
  tests the tag at run time). The only operation on a confidence score is its truth
  test, which for a number asks whether it is zero.
\<close>

record ExtractedQuestion =
  question_number :: "string option"
  question_type :: string
  question_statement :: string
  options :: "string list option"
  is_continuation :: "bool option"
  page_number :: nat
  confidence_score :: "real option"
  spans_multiple_pages :: "bool option"
  continuation_from_page :: "nat option"
  has_image :: "bool option"
  image_description :: "string option"
  uploaded_image :: "string option"

text \<open>\<^verbatim>\<open>{ ...q, page_number: pageNumber, confidence_score: q.confidence_score || 1.0 }\<close>\<close>

definition stamp :: "nat \<Rightarrow> ExtractedQuestion \<Rightarrow> ExtractedQuestion" where
  "stamp pageNumber q =
     q\<lparr>page_number := pageNumber,
       confidence_score :=
         Some (case confidence_score q of
                 None \<Rightarrow> 1
               | Some c \<Rightarrow> if c = 0 then 1 else c)\<rparr>"

text \<open>
  \<^verbatim>\<open>text.match(/\[[\s\S]*\]/)\<close> and \<^verbatim>\<open>text.match(/\{[\s\S]*\}/)\<close>: the match starts
  at the first opening character and, the star being greedy, ends at the last closing
  character of the text; there is a match when that one lies behind the opening.
\<close>

definition match_span :: "char \<Rightarrow> char \<Rightarrow> string \<Rightarrow> string option" where
  "match_span opening closing text =
     (case dropWhile (\<lambda>c. c \<noteq> opening) text of
        [] \<Rightarrow> None
      | _ # inner \<Rightarrow>
          (case rev (dropWhile (\<lambda>c. c \<noteq> closing) (rev inner)) of
             [] \<Rightarrow> None
           | body \<Rightarrow> Some (opening # body)))"

definition match_array :: "string \<Rightarrow> string option" where
  "match_array = match_span CHR ''['' CHR '']''"

definition match_object :: "string \<Rightarrow> string option" where
  "match_object = match_span CHR ''{'' CHR ''}''"

text \<open>
  \<^verbatim>\<open>text.match(/```json\s*([\s\S]*?)\s*```/)\<close>, group 1. After the first
  \<^verbatim>\<open>```json\<close> the white space is skipped; the lazy group then ends at the first
  position from which only white space precedes a closing fence. Backtracking finds
  nothing more: a later start or a shorter white-space run needs the same closing fence.
\<close>

fun find_after :: "string \<Rightarrow> string \<Rightarrow> string option" where
  "find_after sub [] = (if sub = [] then Some [] else None)"
| "find_after sub (c # cs) =
     (if starts_with (c # cs) sub then Some (drop (length sub) (c # cs))
      else find_after sub cs)"

fun lazy_group :: "string \<Rightarrow> string option" where
  "lazy_group [] = None"
| "lazy_group (c # cs) =
     (if starts_with (dropWhile is_space (c # cs)) ''```'' then Some []
      else map_option ((#) c) (lazy_group cs))"

definition match_code_block :: "string \<Rightarrow> string option" where
  "match_code_block text =
     (case find_after ''```json'' text of
        None \<Rightarrow> None
      | Some rest \<Rightarrow> lazy_group (dropWhile is_space rest))"

text \<open>The candidate \<^verbatim>\<open>jsonMatch[0]\<close> of \<open>extractQuestionsWithContext\<close> (lines 425-431)
  and of \<open>performExtraction\<close> (lines 595-601), which are the same statements.\<close>

definition locate_json :: "string \<Rightarrow> string option" where
  "locate_json text =
     (case match_array text of
        Some jsonMatch \<Rightarrow> Some jsonMatch
      | None \<Rightarrow>
          (case match_code_block text of
             Some codeBlockMatch \<Rightarrow> Some codeBlockMatch
           | None \<Rightarrow> None))"

text \<open>
  The repair of lines 453-458, one \<^verbatim>\<open>replace\<close> after the other.
  \<^verbatim>\<open>/\\(?![\\"])/g\<close> doubles each backslash that is not followed by a backslash or a
  double quote; \<^verbatim>\<open>/\\\\\\\\+/g\<close> matches three backslashes and at least one more,
  that is a whole run of four or more, and puts four in its place; the last three put a
  backslash and a letter in place of a line feed, a tab, a carriage return.
\<close>

abbreviation backslash :: char where
  "backslash \<equiv> CHR 0x5C"

fun escape_backslashes :: "string \<Rightarrow> string" where
  "escape_backslashes [] = []"
| "escape_backslashes (c # cs) =
     (if c = backslash \<and> (case cs of [] \<Rightarrow> True | d # _ \<Rightarrow> d \<noteq> backslash \<and> d \<noteq> CHR 0x22)
      then backslash # backslash # escape_backslashes cs
      else c # escape_backslashes cs)"

text \<open>\<open>collapse_runs n cs\<close>: \<open>n\<close> backslashes of the current run have been read.\<close>

fun collapse_runs :: "nat \<Rightarrow> string \<Rightarrow> string" where
  "collapse_runs n [] = replicate (if 4 \<le> n then 4 else n) backslash"
| "collapse_runs n (c # cs) =
     (if c = backslash then collapse_runs (Suc n) cs
      else replicate (if 4 \<le> n then 4 else n) backslash @ c # collapse_runs 0 cs)"

definition replace_char :: "char \<Rightarrow> string \<Rightarrow> string \<Rightarrow> string" where
  "replace_char c by s = concat (map (\<lambda>d. if d = c then by else [d]) s)"

definition fixJson :: "string \<Rightarrow> string" where
  "fixJson jsonMatch =
     replace_char (CHR 0x0D) [backslash, CHR ''r'']
       (replace_char (CHR 0x09) [backslash, CHR ''t'']
         (replace_char (CHR 0x0A) [backslash, CHR ''n'']
           (collapse_runs 0 (escape_backslashes jsonMatch))))"

text \<open>
  \<^verbatim>\<open>JSON.parse(...) as ExtractedQuestion[]\<close> is a parameter \<open>parse\<close>: the decoded
  records, or the exception thrown inside the \<^verbatim>\<open>try\<close> (a syntax error, or a type error
  when the parsed value is not a list of objects).

  Lines 433-470 of \<open>extractQuestionsWithContext\<close>: everything after the response text
  is known. Both \<^verbatim>\<open>catch\<close> blocks return; nothing is thrown.
\<close>

type_synonym questions_parser = "string \<Rightarrow> js_error + ExtractedQuestion list"

definition extractQuestionsWithContext_decode ::
    "questions_parser \<Rightarrow> nat \<Rightarrow> string \<Rightarrow> ExtractedQuestion list" where
  "extractQuestionsWithContext_decode parse pageNumber text =
     (case locate_json text of
        None \<Rightarrow> []
      | Some jsonMatch \<Rightarrow>
          (case parse jsonMatch of
             Inr questions \<Rightarrow> map (stamp pageNumber) questions
           | Inl parseError \<Rightarrow>
               (case parse (fixJson jsonMatch) of
                  Inr questions \<Rightarrow> map (stamp pageNumber) questions
                | Inl secondParseError \<Rightarrow> [])))"

text \<open>Lines 603-618 of \<open>performExtraction\<close>: the \<^verbatim>\<open>catch\<close> returns the empty list.\<close>

definition performExtraction_decode ::
    "questions_parser \<Rightarrow> nat \<Rightarrow> string \<Rightarrow> ExtractedQuestion list" where
  "performExtraction_decode parse pageNumber text =
     (case locate_json text of
        None \<Rightarrow> []
      | Some jsonMatch \<Rightarrow>
          (case parse jsonMatch of
             Inr questions \<Rightarrow> map (stamp pageNumber) questions
           | Inl parseError \<Rightarrow> []))"

section \<open>The three retrying calls (gemini.ts, lines 246-639)\<close>

text \<open>
  Each of the three functions is a \<^verbatim>\<open>while (retryCount < maxRetries)\<close> loop around a
  \<^verbatim>\<open>try\<close> block, with \<open>maxRetries = API_KEYS.length\<close>. The \<^verbatim>\<open>try\<close> block is a
  definition \<open>_try\<close>, the loop with its \<^verbatim>\<open>catch\<close> block a function \<open>_from\<close> of the
  current \<open>retryCount\<close>, and the exported function starts it at 0.
\<close>

record findings =
  sharedDescription :: "string option"
  hasMultiPageQuestion :: "bool option"
  questionNumbers :: "string list option"

text \<open>The empty object \<^verbatim>\<open>{}\<close>.\<close>

definition no_findings :: findings where
  "no_findings = \<lparr>sharedDescription = None, hasMultiPageQuestion = None, questionNumbers = None\<rparr>"

type_synonym findings_parser = "string \<Rightarrow> js_error + findings"

text \<open>Lines 261-307. \<^verbatim>\<open>JSON.parse\<close> is inside the \<^verbatim>\<open>try\<close>: its exception reaches the
  same \<^verbatim>\<open>catch\<close> as a failed request.\<close>

definition analyzePageStructure_try ::
    "string list \<Rightarrow> model_call \<Rightarrow> findings_parser \<Rightarrow> world \<Rightarrow> (js_error + findings) \<times> world" where
  "analyzePageStructure_try API_KEYS generateContent parse w =
     (case call_model API_KEYS generateContent w of
        (Inl error, w') \<Rightarrow> (Inl error, w')
      | (Inr text, w') \<Rightarrow>
          (case match_object text of
             None \<Rightarrow> (Inr no_findings, w')
           | Some jsonMatch \<Rightarrow> (parse jsonMatch, w')))"

function analyzePageStructure_from ::
    "string list \<Rightarrow> model_call \<Rightarrow> findings_parser \<Rightarrow> nat \<Rightarrow> world \<Rightarrow> (js_error + findings) \<times> world" where
  "analyzePageStructure_from API_KEYS generateContent parse retryCount w =
     (let maxRetries = length API_KEYS in
      if retryCount < maxRetries then
        (case analyzePageStructure_try API_KEYS generateContent parse w of
           (Inr result, w') \<Rightarrow> (Inr result, w')
         | (Inl error, w') \<Rightarrow>
             (if is_rate_limit error \<and> retryCount + 1 < maxRetries
              then analyzePageStructure_from API_KEYS generateContent parse (retryCount + 1) w'
              else (Inl error, w')))
      else (Inl (Error (Some ''All API keys exhausted for page structure analysis'')), w))"
  by pat_completeness auto
termination
  by (relation "measure (\<lambda>(API_KEYS, g, p, retryCount, w). length API_KEYS - retryCount)") auto

declare analyzePageStructure_from.simps [simp del]

definition analyzePageStructure ::
    "string list \<Rightarrow> model_call \<Rightarrow> findings_parser \<Rightarrow> world \<Rightarrow> (js_error + findings) \<times> world" where
  "analyzePageStructure API_KEYS generateContent parse w =
     analyzePageStructure_from API_KEYS generateContent parse 0 w"

text \<open>Lines 338-470. After the response text is known nothing throws
  (\<open>extractQuestionsWithContext_decode\<close>).\<close>

definition extractQuestionsWithContext_try ::
    "string list \<Rightarrow> model_call \<Rightarrow> questions_parser \<Rightarrow> nat \<Rightarrow> world
      \<Rightarrow> (js_error + ExtractedQuestion list) \<times> world" where
  "extractQuestionsWithContext_try API_KEYS generateContent parse pageNumber w =
     (case call_model API_KEYS generateContent w of
        (Inl error, w') \<Rightarrow> (Inl error, w')
      | (Inr text, w') \<Rightarrow> (Inr (extractQuestionsWithContext_decode parse pageNumber text), w'))"

function extractQuestionsWithContext_from ::
    "string list \<Rightarrow> model_call \<Rightarrow> questions_parser \<Rightarrow> nat \<Rightarrow> nat \<Rightarrow> world
      \<Rightarrow> (js_error + ExtractedQuestion list) \<times> world" where
  "extractQuestionsWithContext_from API_KEYS generateContent parse pageNumber retryCount w =
     (let maxRetries = length API_KEYS in
      if retryCount < maxRetries then
        (case extractQuestionsWithContext_try API_KEYS generateContent parse pageNumber w of
           (Inr result, w') \<Rightarrow> (Inr result, w')
         | (Inl error, w') \<Rightarrow>
             (if is_rate_limit error \<and> retryCount + 1 < maxRetries
              then extractQuestionsWithContext_from API_KEYS generateContent parse pageNumber
                     (retryCount + 1) w'
              else (Inl error, w')))
      else (Inl (Error (Some ''All API keys exhausted for question extraction'')), w))"
  by pat_completeness auto
termination
  by (relation "measure (\<lambda>(API_KEYS, g, p, n, retryCount, w). length API_KEYS - retryCount)") auto

declare extractQuestionsWithContext_from.simps [simp del]

definition extractQuestionsWithContext ::
    "string list \<Rightarrow> model_call \<Rightarrow> questions_parser \<Rightarrow> nat \<Rightarrow> world
      \<Rightarrow> (js_error + ExtractedQuestion list) \<times> world" where
  "extractQuestionsWithContext API_KEYS generateContent parse pageNumber w =
     extractQuestionsWithContext_from API_KEYS generateContent parse pageNumber 0 w"

text \<open>
  Lines 499-618 and the \<^verbatim>\<open>catch\<close> of lines 620-635. The \<^verbatim>\<open>catch\<close> block ends
  without a \<^verbatim>\<open>throw\<close> when the keys are not used up, so the loop goes on whatever the
  error was; the rate-limit branch only adds a wait.
\<close>

definition performExtraction_try ::
    "string list \<Rightarrow> model_call \<Rightarrow> questions_parser \<Rightarrow> nat \<Rightarrow> world
      \<Rightarrow> (js_error + ExtractedQuestion list) \<times> world" where
  "performExtraction_try API_KEYS generateContent parse pageNumber w =
     (case call_model API_KEYS generateContent w of
        (Inl error, w') \<Rightarrow> (Inl error, w')
      | (Inr text, w') \<Rightarrow> (Inr (performExtraction_decode parse pageNumber text), w'))"

definition exhausted_error :: "nat \<Rightarrow> nat \<Rightarrow> js_error \<Rightarrow> js_error" where
  "exhausted_error maxRetries pageNumber error =
     Error (Some (''All '' @ show_nat maxRetries @ '' API keys exhausted for page ''
                  @ show_nat pageNumber @ '': '' @ message_text error))"

function performExtraction_from ::
    "string list \<Rightarrow> model_call \<Rightarrow> questions_parser \<Rightarrow> nat \<Rightarrow> nat \<Rightarrow> world
      \<Rightarrow> (js_error + ExtractedQuestion list) \<times> world" where
  "performExtraction_from API_KEYS generateContent parse pageNumber retryCount w =
     (let maxRetries = length API_KEYS in
      if retryCount < maxRetries then
        (case performExtraction_try API_KEYS generateContent parse pageNumber w of
           (Inr result, w') \<Rightarrow> (Inr result, w')
         | (Inl error, w') \<Rightarrow>
             (if is_rate_limit error \<and> retryCount + 1 < maxRetries
              then performExtraction_from API_KEYS generateContent parse pageNumber
                     (retryCount + 1) w'
              else if retryCount + 1 \<ge> maxRetries
              then (Inl (exhausted_error maxRetries pageNumber error), w')
              else performExtraction_from API_KEYS generateContent parse pageNumber
                     (retryCount + 1) w'))
      else (Inl (Error (Some (''Failed to process page '' @ show_nat pageNumber
                              @ '' after trying all API keys''))), w))"
  by pat_completeness auto
termination
  by (relation "measure (\<lambda>(API_KEYS, g, p, n, retryCount, w). length API_KEYS - retryCount)") auto

declare performExtraction_from.simps [simp del]

definition performExtraction ::
    "string list \<Rightarrow> model_call \<Rightarrow> questions_parser \<Rightarrow> nat \<Rightarrow> world
      \<Rightarrow> (js_error + ExtractedQuestion list) \<times> world" where
  "performExtraction API_KEYS generateContent parse pageNumber w =
     performExtraction_from API_KEYS generateContent parse pageNumber 0 w"

section \<open>The page loops\<close>

text \<open>
  \<open>enhancedQuestionExtraction\<close> (lines 184-244). The first loop keeps the shared
  descriptions it finds; the second loop appends each page's questions. Either
  \<^verbatim>\<open>catch\<close> block only logs. The page numbers are \<open>startPageNumber + i\<close>.
\<close>

fun first_pass ::
    "string list \<Rightarrow> model_call \<Rightarrow> findings_parser \<Rightarrow> nat list \<Rightarrow> (nat \<rightharpoonup> string) \<Rightarrow> world
      \<Rightarrow> (nat \<rightharpoonup> string) \<times> world" where
  "first_pass API_KEYS generateContent parse [] sharedDescriptions w = (sharedDescriptions, w)"
| "first_pass API_KEYS generateContent parse (pageNum # pages) sharedDescriptions w =
     (case analyzePageStructure API_KEYS generateContent parse w of
        (Inr pageAnalysis, w') \<Rightarrow>
          first_pass API_KEYS generateContent parse pages
            (case sharedDescription pageAnalysis of
               None \<Rightarrow> sharedDescriptions
             | Some d \<Rightarrow> if d = [] then sharedDescriptions else sharedDescriptions(pageNum \<mapsto> d))
            w'
      | (Inl error, w') \<Rightarrow>
          first_pass API_KEYS generateContent parse pages sharedDescriptions w')"

fun second_pass ::
    "string list \<Rightarrow> model_call \<Rightarrow> questions_parser \<Rightarrow> nat list \<Rightarrow> ExtractedQuestion list \<Rightarrow> world
      \<Rightarrow> ExtractedQuestion list \<times> world" where
  "second_pass API_KEYS generateContent parse [] allQuestions w = (allQuestions, w)"
| "second_pass API_KEYS generateContent parse (pageNum # pages) allQuestions w =
     (case extractQuestionsWithContext API_KEYS generateContent parse pageNum w of
        (Inr questions, w') \<Rightarrow>
          second_pass API_KEYS generateContent parse pages (allQuestions @ questions) w'
      | (Inl error, w') \<Rightarrow>
          second_pass API_KEYS generateContent parse pages allQuestions w')"

definition enhancedQuestionExtraction ::
    "string list \<Rightarrow> model_call \<Rightarrow> findings_parser \<Rightarrow> questions_parser \<Rightarrow> string list \<Rightarrow> nat
      \<Rightarrow> world \<Rightarrow> ExtractedQuestion list \<times> world" where
  "enhancedQuestionExtraction API_KEYS generateContent parse_findings parse_questions
       images startPageNumber w =
     (let pages = map (\<lambda>i. startPageNumber + i) [0..<length images];
          (sharedDescriptions, w1) =
             first_pass API_KEYS generateContent parse_findings pages Map.empty w
      in second_pass API_KEYS generateContent parse_questions pages [] w1)"

text \<open>
  The page loop of \<open>scanAndExtractQuestions\<close> (PDFScanner.tsx, lines 166-193), with
  \<open>pageNum = i + 1\<close>; the \<^verbatim>\<open>catch\<close> block reports the error and goes on.
\<close>

fun scan_pages ::
    "string list \<Rightarrow> model_call \<Rightarrow> questions_parser \<Rightarrow> nat list \<Rightarrow> ExtractedQuestion list \<Rightarrow> world
      \<Rightarrow> ExtractedQuestion list \<times> world" where
  "scan_pages API_KEYS generateContent parse [] pdfQuestions w = (pdfQuestions, w)"
| "scan_pages API_KEYS generateContent parse (pageNum # pages) pdfQuestions w =
     (case performExtraction API_KEYS generateContent parse pageNum w of
        (Inr questions, w') \<Rightarrow>
          scan_pages API_KEYS generateContent parse pages
            (if length questions > 0 then pdfQuestions @ questions else pdfQuestions) w'
      | (Inl pageError, w') \<Rightarrow>
          scan_pages API_KEYS generateContent parse pages pdfQuestions w')"

definition scan_pdf_pages ::
    "string list \<Rightarrow> model_call \<Rightarrow> questions_parser \<Rightarrow> string list \<Rightarrow> world
      \<Rightarrow> ExtractedQuestion list \<times> world" where
  "scan_pdf_pages API_KEYS generateContent parse images w =
     scan_pages API_KEYS generateContent parse (map Suc [0..<length images]) [] w"

text \<open>
  The outcome of each page's call in the order of the run, for stating what a run
  returns: the state reached after one page is the state the next page starts from.
\<close>

fun run_outcomes :: "(nat \<Rightarrow> world \<Rightarrow> (js_error + 'a) \<times> world) \<Rightarrow> nat list \<Rightarrow> world
      \<Rightarrow> (js_error + 'a) list" where
  "run_outcomes call [] w = []"
| "run_outcomes call (pageNum # pages) w =
     (case call pageNum w of (r, w') \<Rightarrow> r # run_outcomes call pages w')"

definition contribution :: "js_error + 'a list \<Rightarrow> 'a list" where
  "contribution r = (case r of Inl error \<Rightarrow> [] | Inr questions \<Rightarrow> questions)"

text \<open>The state reached when the calls for all the pages have been made.\<close>

fun run_world :: "(nat \<Rightarrow> world \<Rightarrow> (js_error + 'a) \<times> world) \<Rightarrow> nat list \<Rightarrow> world \<Rightarrow> world" where
  "run_world call [] w = w"
| "run_world call (pageNum # pages) w = run_world call pages (snd (call pageNum w))"

text \<open>The structural call for a page (line 197): the page number and the neighbouring
  images are handed over, and \<open>analyzePageStructure\<close> uses neither.\<close>

definition structural_call ::
    "string list \<Rightarrow> model_call \<Rightarrow> findings_parser \<Rightarrow> nat \<Rightarrow> world \<Rightarrow> (js_error + findings) \<times> world" where
  "structural_call API_KEYS generateContent parse pageNum w =
     analyzePageStructure API_KEYS generateContent parse w"

text \<open>What the first loop keeps of the outcome for a page (lines 200-202 and the
  \<^verbatim>\<open>catch\<close> of lines 209-212).\<close>

definition record_description ::
    "(nat \<rightharpoonup> string) \<Rightarrow> nat \<times> (js_error + findings) \<Rightarrow> (nat \<rightharpoonup> string)" where
  "record_description sharedDescriptions outcome =
     (case outcome of
        (pageNum, Inl error) \<Rightarrow> sharedDescriptions
      | (pageNum, Inr pageAnalysis) \<Rightarrow>
          (case sharedDescription pageAnalysis of
             None \<Rightarrow> sharedDescriptions
           | Some d \<Rightarrow> if d = [] then sharedDescriptions else sharedDescriptions(pageNum \<mapsto> d)))"

section \<open>Saving (PDFScanner.tsx, lines 244-320)\<close>

text \<open>
  A row as it is handed to the \<open>questions\<close> table. \<open>year\<close> is the result of
  \<^verbatim>\<open>parseInt\<close>, \<open>None\<close> for \<^verbatim>\<open>NaN\<close>. The storage is a parameter \<open>db_insert\<close>, which
  answers a batch with an error message or with the rows it stored; the batches handed
  to it are recorded, oldest first.
\<close>

record question_row =
  row_question_type :: string
  row_question_statement :: string
  row_options :: "string list option"
  course_id :: string
  year :: "int option"
  categorized :: bool

type_synonym storage_insert = "question_row list \<Rightarrow> string + question_row list"

definition to_row :: "string \<Rightarrow> string \<Rightarrow> ExtractedQuestion \<Rightarrow> question_row" where
  "to_row selectedCourse year_text q =
     \<lparr>row_question_type = question_type q,
      row_question_statement = question_statement q,
      row_options = (case options q of
                       None \<Rightarrow> None
                     | Some os \<Rightarrow> if length os > 0 then Some os else None),
      course_id = selectedCourse,
      year = parseInt year_text,
      categorized = False\<rparr>"

text \<open>The filter of lines 254-261; a string is true when it is not empty, a number
  when it is neither \<^verbatim>\<open>NaN\<close> nor 0.\<close>

definition valid_row :: "question_row \<Rightarrow> bool" where
  "valid_row q =
     (row_question_statement q \<noteq> [] \<and>
      length (trim (row_question_statement q)) > 0 \<and>
      row_question_type q \<noteq> [] \<and>
      row_question_type q \<in> set [''MCQ'', ''MSQ'', ''NAT'', ''Subjective''] \<and>
      course_id q \<noteq> [] \<and>
      (case year q of
         None \<Rightarrow> False
       | Some y \<Rightarrow> y \<noteq> 0 \<and> y > 2000 \<and> y < 2030))"

definition savePdfQuestions ::
    "storage_insert \<Rightarrow> string \<Rightarrow> ExtractedQuestion list \<Rightarrow> string \<Rightarrow> question_row list list
      \<Rightarrow> (js_error + question_row list) \<times> question_row list list" where
  "savePdfQuestions db_insert selectedCourse questions year_text submitted =
     (let questionsToInsert = map (to_row selectedCourse year_text) questions;
          validQuestions = filter valid_row questionsToInsert
      in if length validQuestions = 0
         then (Inl (Error (Some ''No valid questions to save'')), submitted)
         else (case db_insert validQuestions of
                 Inl msg \<Rightarrow> (Inl (Error (Some (''Database error: '' @ msg))),
                             submitted @ [validQuestions])
               | Inr data \<Rightarrow> (Inr data, submitted @ [validQuestions])))"





text \<open>What the user is told: the guard's message, the success count, or the caught
  error.\<close>

datatype save_outcome = NotReady | Saved nat | Failed js_error


section \<open>Sample data for the examples\<close>

text \<open>A question as the model may report it, and a response text whose only defect is
  the single backslash of \<^verbatim>\<open>"\alpha"\<close>, which strict JSON rejects.\<close>

definition sample_question :: ExtractedQuestion where
  "sample_question =
     \<lparr>question_number = Some ''5'', question_type = ''MCQ'',
      question_statement = [backslash] @ ''alpha'', options = None, is_continuation = None,
      page_number = 9, confidence_score = None, spans_multiple_pages = None,
      continuation_from_page = None, has_image = None, image_description = None,
      uploaded_image = None\<rparr>"

definition quoted :: "string \<Rightarrow> string" where
  "quoted s = CHR 0x22 # s @ [CHR 0x22]"

definition sample_json :: "string \<Rightarrow> string" where
  "sample_json statement =
     ''[{'' @ quoted ''question_number'' @ '':'' @ quoted ''5'' @ '',''
           @ quoted ''question_type'' @ '':'' @ quoted ''MCQ'' @ '',''
           @ quoted ''question_statement'' @ '':'' @ quoted statement @ '',''
           @ quoted ''page_number'' @ '':9}]''"

definition sample_text :: string where
  "sample_text = sample_json ([backslash] @ ''alpha'')"

definition sample_repaired :: string where
  "sample_repaired = sample_json ([backslash, backslash] @ ''alpha'')"

text \<open>A parser that agrees with \<^verbatim>\<open>JSON.parse\<close> on \<open>sample_repaired\<close> (one record) and
  on \<open>sample_text\<close> (a syntax error), and rejects every other text.\<close>

definition sample_parse :: questions_parser where
  "sample_parse s =
     (if s = sample_repaired then Inr [sample_question]
      else Inl (Error (Some ''SyntaxError: Bad escaped character in JSON'')))"

definition no_parse :: "string \<Rightarrow> js_error + 'a" where
  "no_parse s = Inl (Error (Some ''SyntaxError: Unexpected token''))"

definition world0 :: world where
  "world0 = \<lparr>keyUsageCount = Map.empty, requests = []\<rparr>"

text \<open>A model that fails its first request with a transport error and then answers
  with a text that holds no JSON; and one that is rate limited on every request.\<close>

definition flaky_model :: model_call where
  "flaky_model n apiKey =
     (if n = 0 then Inl (Error (Some ''fetch failed'')) else Inr ''no questions here'')"

definition limited_model :: model_call where
  "limited_model n apiKey = Inl (Error (Some ''429 Too Many Requests''))"

text \<open>Models that answer every request with \<open>sample_text\<close>, and with a text that
  holds no JSON; a findings parser that finds nothing; a storage that accepts every
  batch.\<close>

definition sample_model :: model_call where
  "sample_model n apiKey = Inr sample_text"

definition plain_model :: model_call where
  "plain_model n apiKey = Inr ''no questions here''"

definition findings_parse :: findings_parser where
  "findings_parse s = Inr no_findings"

definition accepting_store :: storage_insert where
  "accepting_store batch = Inr batch"

text \<open>Models for a document of three pages and a pool of one key: the second request
  fails; the second and the fifth request fail.\<close>

definition page2_fails :: model_call where
  "page2_fails n apiKey =
     (if n = 1 then Inl (Error (Some ''fetch failed'')) else Inr sample_repaired)"

definition page2_fails_twice :: model_call where
  "page2_fails_twice n apiKey =
     (if n = 1 \<or> n = 4 then Inl (Error (Some ''fetch failed'')) else Inr sample_repaired)"

section \<open>Properties of the credential pool\<close>

lemma scan_keys_spec:
  assumes "scan_keys m ks (b, usage_of m b) = (b', mu')"
  shows "mu' = usage_of m b' \<and> (\<forall>k\<in>set ks. mu' \<le> usage_of m k) \<and> mu' \<le> usage_of m b \<and>
         ((b' = b \<and> (\<forall>k\<in>set ks. usage_of m b \<le> usage_of m k)) \<or>
          (\<exists>pre post. ks = pre @ b' # post \<and> usage_of m b' < usage_of m b \<and>
                       (\<forall>k\<in>set pre. usage_of m b' < usage_of m k)))"
  using assms
proof (induction ks arbitrary: b)
  case Nil
  then show ?case by auto
next
  case (Cons key ks)
  show ?case
  proof (cases "usage_of m key < usage_of m b")
    case True
    with Cons.prems have "scan_keys m ks (key, usage_of m key) = (b', mu')"
      by simp
    from Cons.IH [OF this] have ih: "mu' = usage_of m b'" "\<forall>k\<in>set ks. mu' \<le> usage_of m k"
      "mu' \<le> usage_of m key"
      "(b' = key \<and> (\<forall>k\<in>set ks. usage_of m key \<le> usage_of m k)) \<or>
          (\<exists>pre post. ks = pre @ b' # post \<and> usage_of m b' < usage_of m key \<and>
                       (\<forall>k\<in>set pre. usage_of m b' < usage_of m k))"
      by blast+
    from ih(4) have "\<exists>pre post. key # ks = pre @ b' # post \<and> usage_of m b' < usage_of m b \<and>
                       (\<forall>k\<in>set pre. usage_of m b' < usage_of m k)"
    proof
      assume "b' = key \<and> (\<forall>k\<in>set ks. usage_of m key \<le> usage_of m k)"
      then have "key # ks = [] @ b' # ks \<and> usage_of m b' < usage_of m b \<and>
                 (\<forall>k\<in>set []. usage_of m b' < usage_of m k)"
        using True by simp
      then show ?thesis by blast
    next
      assume "\<exists>pre post. ks = pre @ b' # post \<and> usage_of m b' < usage_of m key \<and>
                       (\<forall>k\<in>set pre. usage_of m b' < usage_of m k)"
      then obtain pre post where p: "ks = pre @ b' # post" "usage_of m b' < usage_of m key"
        "\<forall>k\<in>set pre. usage_of m b' < usage_of m k" by blast
      then have "key # ks = (key # pre) @ b' # post \<and> usage_of m b' < usage_of m b \<and>
                 (\<forall>k\<in>set (key # pre). usage_of m b' < usage_of m k)"
        using True by auto
      then show ?thesis by blast
    qed
    with ih True show ?thesis by auto
  next
    case False
    with Cons.prems have "scan_keys m ks (b, usage_of m b) = (b', mu')"
      by simp
    from Cons.IH [OF this] have ih: "mu' = usage_of m b'" "\<forall>k\<in>set ks. mu' \<le> usage_of m k"
      "mu' \<le> usage_of m b"
      "(b' = b \<and> (\<forall>k\<in>set ks. usage_of m b \<le> usage_of m k)) \<or>
          (\<exists>pre post. ks = pre @ b' # post \<and> usage_of m b' < usage_of m b \<and>
                       (\<forall>k\<in>set pre. usage_of m b' < usage_of m k))"
      by blast+
    from ih(4) have "(b' = b \<and> (\<forall>k\<in>set (key # ks). usage_of m b \<le> usage_of m k)) \<or>
          (\<exists>pre post. key # ks = pre @ b' # post \<and> usage_of m b' < usage_of m b \<and>
                       (\<forall>k\<in>set pre. usage_of m b' < usage_of m k))"
    proof
      assume "b' = b \<and> (\<forall>k\<in>set ks. usage_of m b \<le> usage_of m k)"
      then show ?thesis using False by auto
    next
      assume "\<exists>pre post. ks = pre @ b' # post \<and> usage_of m b' < usage_of m b \<and>
                       (\<forall>k\<in>set pre. usage_of m b' < usage_of m k)"
      then obtain pre post where p: "ks = pre @ b' # post" "usage_of m b' < usage_of m b"
        "\<forall>k\<in>set pre. usage_of m b' < usage_of m k" by blast
      then have "key # ks = (key # pre) @ b' # post \<and> usage_of m b' < usage_of m b \<and>
                 (\<forall>k\<in>set (key # pre). usage_of m b' < usage_of m k)"
        using False by auto
      then show ?thesis by blast
    qed
    with ih False show ?thesis by auto
  qed
qed


lemma getNextApiKey_spec:
  assumes "API_KEYS \<noteq> []" and "getNextApiKey API_KEYS m = (key, m')"
  shows "m' = m(key \<mapsto> usage_of m key + 1)"
    and "\<exists>pre post. API_KEYS = pre @ key # post \<and>
           (\<forall>k\<in>set pre. usage_of m key < usage_of m k) \<and>
           (\<forall>k\<in>set post. usage_of m key \<le> usage_of m k)"
    and "\<forall>k\<in>set API_KEYS. usage_of m key \<le> usage_of m k"
proof -
  from assms(1) obtain k0 rest where keys: "API_KEYS = k0 # rest"
    by (cases API_KEYS) auto
  obtain b mu where sc: "scan_keys m (k0 # rest) (k0, usage_of m k0) = (b, mu)"
    by (cases "scan_keys m (k0 # rest) (k0, usage_of m k0)") auto
  with assms(2) keys have res: "key = b" "m' = m(b \<mapsto> usage_of m b + 1)"
    by auto
  from sc have sc': "scan_keys m rest (k0, usage_of m k0) = (b, mu)"
    by simp
  from scan_keys_spec [OF sc'] have
    mu: "mu = usage_of m b" and
    all: "\<forall>k\<in>set rest. mu \<le> usage_of m k" and
    le0: "mu \<le> usage_of m k0" and
    pos: "(b = k0 \<and> (\<forall>k\<in>set rest. usage_of m k0 \<le> usage_of m k)) \<or>
          (\<exists>pre post. rest = pre @ b # post \<and> usage_of m b < usage_of m k0 \<and>
                       (\<forall>k\<in>set pre. usage_of m b < usage_of m k))"
    by blast+
  show "m' = m(key \<mapsto> usage_of m key + 1)"
    using res by simp
  show min: "\<forall>k\<in>set API_KEYS. usage_of m key \<le> usage_of m k"
    using keys res mu all le0 by auto
  from pos show "\<exists>pre post. API_KEYS = pre @ key # post \<and>
           (\<forall>k\<in>set pre. usage_of m key < usage_of m k) \<and>
           (\<forall>k\<in>set post. usage_of m key \<le> usage_of m k)"
  proof
    assume "b = k0 \<and> (\<forall>k\<in>set rest. usage_of m k0 \<le> usage_of m k)"
    then have "API_KEYS = [] @ key # rest \<and>
           (\<forall>k\<in>set []. usage_of m key < usage_of m k) \<and>
           (\<forall>k\<in>set rest. usage_of m key \<le> usage_of m k)"
      using keys res by simp
    then show ?thesis by blast
  next
    assume "\<exists>pre post. rest = pre @ b # post \<and> usage_of m b < usage_of m k0 \<and>
                       (\<forall>k\<in>set pre. usage_of m b < usage_of m k)"
    then obtain pre post where p: "rest = pre @ b # post" "usage_of m b < usage_of m k0"
        "\<forall>k\<in>set pre. usage_of m b < usage_of m k" by blast
    have "set post \<subseteq> set API_KEYS"
      using keys p(1) by auto
    with min have "\<forall>k\<in>set post. usage_of m key \<le> usage_of m k"
      by blast
    with p keys res have "API_KEYS = (k0 # pre) @ key # post \<and>
           (\<forall>k\<in>set (k0 # pre). usage_of m key < usage_of m k) \<and>
           (\<forall>k\<in>set post. usage_of m key \<le> usage_of m k)"
      by simp
    then show ?thesis by blast
  qed
qed

lemma usage_of_upd:
  "usage_of (m(key \<mapsto> v)) k = (if k = key then v else usage_of m k)"
  by (simp add: usage_of_def)

lemma balanced_iff:
  "balanced API_KEYS m \<longleftrightarrow>
     (\<forall>k\<in>set API_KEYS. \<forall>k'\<in>set API_KEYS. usage_of m k \<le> usage_of m k' + 1)"
  by (simp add: balanced_def list_all_iff)

lemma balanced_empty: "balanced API_KEYS Map.empty"
  by (simp add: balanced_iff usage_of_def)

lemma balanced_getNextApiKey:
  assumes "API_KEYS \<noteq> []" and "balanced API_KEYS m"
  shows "balanced API_KEYS (snd (getNextApiKey API_KEYS m))"
proof -
  obtain key m' where g: "getNextApiKey API_KEYS m = (key, m')"
    by (cases "getNextApiKey API_KEYS m") auto
  note sp = getNextApiKey_spec [OF assms(1) g]
  have "usage_of m' k \<le> usage_of m' k' + 1"
    if "k \<in> set API_KEYS" "k' \<in> set API_KEYS" for k k'
  proof -
    from sp(3) that have "usage_of m key \<le> usage_of m k'"
      by blast
    moreover from assms(2) that have "usage_of m k \<le> usage_of m k' + 1"
      by (simp add: balanced_iff)
    ultimately show ?thesis
      by (auto simp: sp(1) usage_of_upd)
  qed
  then show ?thesis
    by (simp add: g balanced_iff)
qed

lemma balanced_acquire_many:
  "API_KEYS \<noteq> [] \<Longrightarrow> balanced API_KEYS m \<Longrightarrow> balanced API_KEYS (acquire_many API_KEYS n m)"
  by (induction n arbitrary: m) (simp_all add: balanced_getNextApiKey)

text \<open>
  Claim C6. For every state of the usage counters, one call of \<open>getNextApiKey\<close> on a
  non-empty pool returns a key of the pool whose count is minimal; among the keys of
  minimal count it is the first in the configured order (every key before it has a
  strictly larger count); and the only change to the counters is that the count of the
  returned key goes up by one.
\<close>

theorem getNextApiKey_least_used:
  assumes "API_KEYS \<noteq> []" and "getNextApiKey API_KEYS m = (key, m')"
  shows "(\<exists>pre post. API_KEYS = pre @ key # post \<and>
            (\<forall>k\<in>set pre. usage_of m key < usage_of m k) \<and>
            (\<forall>k\<in>set post. usage_of m key \<le> usage_of m k)) \<and>
         usage_of m' key = usage_of m key + 1 \<and>
         (\<forall>k. k \<noteq> key \<longrightarrow> m' k = m k)"
  using getNextApiKey_spec(1,2) [OF assms] by (simp add: usage_of_upd)

theorem getNextApiKey_least_used_witness:
  "[''k1'', ''k2'', ''k3''] \<noteq> [] \<and>
   fst (getNextApiKey [''k1'', ''k2'', ''k3''] [''k1'' \<mapsto> 2, ''k2'' \<mapsto> 1, ''k3'' \<mapsto> 1]) = ''k2'' \<and>
   (\<exists>pre post. [''k1'', ''k2'', ''k3''] = pre @ ''k2'' # post \<and>
      (\<forall>k\<in>set pre. usage_of [''k1'' \<mapsto> 2, ''k2'' \<mapsto> 1, ''k3'' \<mapsto> 1] ''k2''
                       < usage_of [''k1'' \<mapsto> 2, ''k2'' \<mapsto> 1, ''k3'' \<mapsto> 1] k) \<and>
      (\<forall>k\<in>set post. usage_of [''k1'' \<mapsto> 2, ''k2'' \<mapsto> 1, ''k3'' \<mapsto> 1] ''k2''
                       \<le> usage_of [''k1'' \<mapsto> 2, ''k2'' \<mapsto> 1, ''k3'' \<mapsto> 1] k)) \<and>
   usage_of (snd (getNextApiKey [''k1'', ''k2'', ''k3'']
                    [''k1'' \<mapsto> 2, ''k2'' \<mapsto> 1, ''k3'' \<mapsto> 1])) ''k2'' = 2"
proof -
  let ?m = "[''k1'' \<mapsto> 2, ''k2'' \<mapsto> 1, ''k3'' \<mapsto> (1::nat)]"
  have ne: "[''k1'', ''k2'', ''k3''] \<noteq> []"
    by simp
  have key: "fst (getNextApiKey [''k1'', ''k2'', ''k3''] ?m) = ''k2''"
    by (simp add: usage_of_def)
  then have run: "getNextApiKey [''k1'', ''k2'', ''k3''] ?m
      = (''k2'', snd (getNextApiKey [''k1'', ''k2'', ''k3''] ?m))"
    by (metis prod.collapse)
  have u: "usage_of ?m ''k2'' = 1"
    by (simp add: usage_of_def)
  from getNextApiKey_least_used [OF ne run] ne key u show ?thesis
    by simp
qed

text \<open>
  Claim C7. Starting from counters that are all zero (the empty map), after any number
  \<open>n\<close> of calls of \<open>getNextApiKey\<close> on a non-empty pool no key of the pool has a count
  more than one above the count of another key of the pool, and the key that the next
  call picks has a count that no key of the pool undercuts.
\<close>

theorem acquire_many_balanced:
  assumes "API_KEYS \<noteq> []"
  shows "(\<forall>k\<in>set API_KEYS. \<forall>k'\<in>set API_KEYS.
            usage_of (acquire_many API_KEYS n Map.empty) k
              \<le> usage_of (acquire_many API_KEYS n Map.empty) k' + 1) \<and>
         (\<forall>k\<in>set API_KEYS.
            usage_of (acquire_many API_KEYS n Map.empty)
                (fst (getNextApiKey API_KEYS (acquire_many API_KEYS n Map.empty)))
              \<le> usage_of (acquire_many API_KEYS n Map.empty) k)"
proof -
  let ?m = "acquire_many API_KEYS n Map.empty"
  have "balanced API_KEYS ?m"
    using assms by (simp add: balanced_acquire_many balanced_empty)
  moreover have "\<forall>k\<in>set API_KEYS. usage_of ?m (fst (getNextApiKey API_KEYS ?m)) \<le> usage_of ?m k"
    using getNextApiKey_spec(3) [OF assms, of ?m] by (cases "getNextApiKey API_KEYS ?m") auto
  ultimately show ?thesis
    by (simp add: balanced_iff)
qed

theorem acquire_many_balanced_witness:
  "[''k1'', ''k2'', ''k3''] \<noteq> [] \<and>
   map (usage_of (acquire_many [''k1'', ''k2'', ''k3''] 4 Map.empty)) [''k1'', ''k2'', ''k3'']
     = [2, 1, 1] \<and>
   balanced [''k1'', ''k2'', ''k3''] (acquire_many [''k1'', ''k2'', ''k3''] 4 Map.empty)"
proof -
  have ne: "[''k1'', ''k2'', ''k3''] \<noteq> []"
    by simp
  have run: "map (usage_of (acquire_many [''k1'', ''k2'', ''k3''] 4 Map.empty))
      [''k1'', ''k2'', ''k3''] = [2, 1, 1]"
    by (simp add: numeral_eq_Suc usage_of_def)
  from acquire_many_balanced [OF ne, of 4]
  have "balanced [''k1'', ''k2'', ''k3''] (acquire_many [''k1'', ''k2'', ''k3''] 4 Map.empty)"
    unfolding balanced_iff by blast
  with ne run show ?thesis
    by blast
qed


section \<open>Properties of the retrying calls\<close>

lemma call_model_requests:
  "call_model API_KEYS g w = (r, w') \<Longrightarrow>
     requests w' = requests w @ [fst (getNextApiKey API_KEYS (keyUsageCount w))]"
  by (auto simp: call_model_def split: prod.splits)

lemma analyzePageStructure_try_requests:
  "analyzePageStructure_try API_KEYS g p w = (r, w') \<Longrightarrow>
     length (requests w') = Suc (length (requests w))"
  unfolding analyzePageStructure_try_def
  by (auto split: prod.splits sum.splits option.splits dest: call_model_requests)

lemma extractQuestionsWithContext_try_requests:
  "extractQuestionsWithContext_try API_KEYS g p n w = (r, w') \<Longrightarrow>
     length (requests w') = Suc (length (requests w))"
  unfolding extractQuestionsWithContext_try_def
  by (auto split: prod.splits sum.splits dest: call_model_requests)

lemma performExtraction_try_requests:
  "performExtraction_try API_KEYS g p n w = (r, w') \<Longrightarrow>
     length (requests w') = Suc (length (requests w))"
  unfolding performExtraction_try_def
  by (auto split: prod.splits sum.splits dest: call_model_requests)

lemma performExtraction_from_requests:
  "retryCount < length API_KEYS \<Longrightarrow>
     Suc (length (requests w))
       \<le> length (requests (snd (performExtraction_from API_KEYS g p n retryCount w)))"
proof (induction "length API_KEYS - retryCount" arbitrary: retryCount w)
  case 0
  then show ?case by simp
next
  case (Suc d)
  obtain r w' where t: "performExtraction_try API_KEYS g p n w = (r, w')"
    by (cases "performExtraction_try API_KEYS g p n w") auto
  note rq = performExtraction_try_requests [OF t]
  show ?case
  proof (cases r)
    case (Inr qs)
    with Suc.prems t rq show ?thesis
      by (simp add: performExtraction_from.simps [of _ _ _ _ retryCount])
  next
    case (Inl e)
    show ?thesis
    proof (cases "retryCount + 1 < length API_KEYS")
      case True
      with Suc.hyps(2) have "d = length API_KEYS - (retryCount + 1)"
        by simp
      from Suc.hyps(1) [OF this True, of w'] rq
      have "Suc (length (requests w))
          \<le> length (requests (snd (performExtraction_from API_KEYS g p n (retryCount + 1) w')))"
        by simp
      with Suc.prems t Inl True show ?thesis
        by (simp add: performExtraction_from.simps [of _ _ _ _ retryCount] Let_def)
    next
      case False
      with Suc.prems t Inl rq show ?thesis
        by (simp add: performExtraction_from.simps [of _ _ _ _ retryCount])
    qed
  qed
qed

text \<open>
  Claim C1, as amended. When an attempt fails with an error whose message holds neither
  \<open>429\<close> nor \<open>quota\<close>: \<open>analyzePageStructure\<close> and \<open>extractQuestionsWithContext\<close> end
  with that very error, in the state reached by that one attempt (one request more than
  before, no further key acquired). \<open>performExtraction\<close> does not: while keys remain it
  goes on with the next attempt, so that at least two requests are issued, and when the
  failed attempt was the last one allowed it ends with the error
  \<open>All M API keys exhausted for page N: ...\<close> that carries the message.
\<close>

theorem non_rate_limit_error:
  assumes "retryCount < length API_KEYS" and "\<not> is_rate_limit error"
  shows "(analyzePageStructure_try API_KEYS g pf w = (Inl error, w1) \<longrightarrow>
            analyzePageStructure_from API_KEYS g pf retryCount w = (Inl error, w1) \<and>
            length (requests w1) = Suc (length (requests w))) \<and>
         (extractQuestionsWithContext_try API_KEYS g pq n w = (Inl error, w2) \<longrightarrow>
            extractQuestionsWithContext_from API_KEYS g pq n retryCount w = (Inl error, w2) \<and>
            length (requests w2) = Suc (length (requests w))) \<and>
         (performExtraction_try API_KEYS g pq n w = (Inl error, w3) \<longrightarrow>
            performExtraction_from API_KEYS g pq n retryCount w =
              (if retryCount + 1 < length API_KEYS
               then performExtraction_from API_KEYS g pq n (retryCount + 1) w3
               else (Inl (exhausted_error (length API_KEYS) n error), w3)) \<and>
            (retryCount + 1 < length API_KEYS \<longrightarrow>
               length (requests w) + 2
                 \<le> length (requests (snd (performExtraction_from API_KEYS g pq n retryCount w)))))"
proof (intro conjI impI)
  assume t: "analyzePageStructure_try API_KEYS g pf w = (Inl error, w1)"
  with assms show "analyzePageStructure_from API_KEYS g pf retryCount w = (Inl error, w1)"
    by (simp add: analyzePageStructure_from.simps [of _ _ _ retryCount])
  from t show "length (requests w1) = Suc (length (requests w))"
    by (rule analyzePageStructure_try_requests)
next
  assume t: "extractQuestionsWithContext_try API_KEYS g pq n w = (Inl error, w2)"
  with assms show "extractQuestionsWithContext_from API_KEYS g pq n retryCount w = (Inl error, w2)"
    by (simp add: extractQuestionsWithContext_from.simps [of _ _ _ _ retryCount])
  from t show "length (requests w2) = Suc (length (requests w))"
    by (rule extractQuestionsWithContext_try_requests)
next
  assume t: "performExtraction_try API_KEYS g pq n w = (Inl error, w3)"
  with assms show eq: "performExtraction_from API_KEYS g pq n retryCount w =
              (if retryCount + 1 < length API_KEYS
               then performExtraction_from API_KEYS g pq n (retryCount + 1) w3
               else (Inl (exhausted_error (length API_KEYS) n error), w3))"
    by (simp add: performExtraction_from.simps [of _ _ _ _ retryCount])
  assume more: "retryCount + 1 < length API_KEYS"
  from performExtraction_from_requests [OF more, of w3 g pq n]
    performExtraction_try_requests [OF t] eq more
  show "length (requests w) + 2
          \<le> length (requests (snd (performExtraction_from API_KEYS g pq n retryCount w)))"
    by simp
qed

lemma flaky_first_call:
  "call_model [''k1'', ''k2''] flaky_model world0
     = (Inl (Error (Some ''fetch failed'')),
        \<lparr>keyUsageCount = [''k1'' \<mapsto> Suc 0], requests = [''k1'']\<rparr>)"
  by (simp add: call_model_def world0_def flaky_model_def usage_of_def)

lemma flaky_second_call:
  "call_model [''k1'', ''k2''] flaky_model \<lparr>keyUsageCount = [''k1'' \<mapsto> Suc 0], requests = [''k1'']\<rparr>
     = (Inr ''no questions here'',
        \<lparr>keyUsageCount = [''k1'' \<mapsto> Suc 0, ''k2'' \<mapsto> Suc 0], requests = [''k1'', ''k2'']\<rparr>)"
  by (simp add: call_model_def flaky_model_def usage_of_def)

lemma no_json_in_flaky_text: "locate_json ''no questions here'' = None"
  by (simp add: locate_json_def match_array_def match_span_def match_code_block_def)

lemma fetch_failed_not_rate_limit: "\<not> is_rate_limit (Error (Some ''fetch failed''))"
  by (simp add: is_rate_limit_def)

theorem non_rate_limit_error_witness:
  "(0::nat) < length [''k1'', ''k2''] \<and> \<not> is_rate_limit (Error (Some ''fetch failed'')) \<and>
   analyzePageStructure_from [''k1'', ''k2''] flaky_model no_parse 0 world0
     = (Inl (Error (Some ''fetch failed'')),
        \<lparr>keyUsageCount = [''k1'' \<mapsto> 1], requests = [''k1'']\<rparr>) \<and>
   extractQuestionsWithContext_from [''k1'', ''k2''] flaky_model no_parse 7 0 world0
     = (Inl (Error (Some ''fetch failed'')),
        \<lparr>keyUsageCount = [''k1'' \<mapsto> 1], requests = [''k1'']\<rparr>) \<and>
   performExtraction_from [''k1'', ''k2''] flaky_model no_parse 7 0 world0
     = performExtraction_from [''k1'', ''k2''] flaky_model no_parse 7 1
         \<lparr>keyUsageCount = [''k1'' \<mapsto> 1], requests = [''k1'']\<rparr> \<and>
   2 \<le> length (requests (snd (performExtraction_from [''k1'', ''k2''] flaky_model no_parse 7 0 world0)))"
proof -
  let ?K = "[''k1'', ''k2'']"
  let ?e = "Error (Some ''fetch failed'')"
  let ?w = "\<lparr>keyUsageCount = [''k1'' \<mapsto> 1], requests = [''k1'']\<rparr>"
  have r: "(0::nat) < length ?K"
    by simp
  have t1: "analyzePageStructure_try ?K flaky_model no_parse world0 = (Inl ?e, ?w)"
    by (simp add: analyzePageStructure_try_def flaky_first_call)
  have t2: "extractQuestionsWithContext_try ?K flaky_model no_parse 7 world0 = (Inl ?e, ?w)"
    by (simp add: extractQuestionsWithContext_try_def flaky_first_call)
  have t3: "performExtraction_try ?K flaky_model no_parse 7 world0 = (Inl ?e, ?w)"
    by (simp add: performExtraction_try_def flaky_first_call)
  have w0: "length (requests world0) = 0"
    by (simp add: world0_def)
  note th = non_rate_limit_error [OF r fetch_failed_not_rate_limit,
      of flaky_model no_parse world0 ?w no_parse 7 ?w ?w]
  from th t1 have c1: "analyzePageStructure_from ?K flaky_model no_parse 0 world0 = (Inl ?e, ?w)"
    by blast
  from th t2 have c2: "extractQuestionsWithContext_from ?K flaky_model no_parse 7 0 world0 = (Inl ?e, ?w)"
    by blast
  from th t3 have "performExtraction_from ?K flaky_model no_parse 7 0 world0 =
      (if 0 + 1 < length ?K then performExtraction_from ?K flaky_model no_parse 7 (0 + 1) ?w
       else (Inl (exhausted_error (length ?K) 7 ?e), ?w))"
    by blast
  then have c3: "performExtraction_from ?K flaky_model no_parse 7 0 world0 =
      performExtraction_from ?K flaky_model no_parse 7 1 ?w"
    by simp
  from th t3 have "0 + 1 < length ?K \<longrightarrow> length (requests world0) + 2
      \<le> length (requests (snd (performExtraction_from ?K flaky_model no_parse 7 0 world0)))"
    by blast
  then have c4: "2 \<le> length (requests (snd (performExtraction_from ?K flaky_model no_parse 7 0 world0)))"
    by (simp add: w0)
  from r fetch_failed_not_rate_limit c1 c2 c3 c4 show ?thesis
    by blast
qed

text \<open>
  The claim as stated fails for \<open>performExtraction\<close>: with two keys, the first
  request fails with \<open>fetch failed\<close>, which is no rate-limit error; a second key is
  acquired, a second request is issued, and the call ends without an error.
\<close>

theorem performExtraction_retries_other_errors:
  "\<not> is_rate_limit (Error (Some ''fetch failed'')) \<and>
   fst (call_model [''k1'', ''k2''] flaky_model world0) = Inl (Error (Some ''fetch failed'')) \<and>
   performExtraction [''k1'', ''k2''] flaky_model no_parse 7 world0
     = (Inr [], \<lparr>keyUsageCount = [''k1'' \<mapsto> 1, ''k2'' \<mapsto> 1], requests = [''k1'', ''k2'']\<rparr>)"
proof -
  have "performExtraction_from [''k1'', ''k2''] flaky_model no_parse 7 1
          \<lparr>keyUsageCount = [''k1'' \<mapsto> 1], requests = [''k1'']\<rparr>
     = (Inr [], \<lparr>keyUsageCount = [''k1'' \<mapsto> 1, ''k2'' \<mapsto> 1], requests = [''k1'', ''k2'']\<rparr>)"
    by (simp add: performExtraction_from.simps [of _ _ _ _ "Suc 0"] performExtraction_try_def
        flaky_second_call performExtraction_decode_def no_json_in_flaky_text)
  then show ?thesis
    by (simp add: performExtraction_def performExtraction_from.simps [of _ _ _ _ 0]
        performExtraction_try_def flaky_first_call fetch_failed_not_rate_limit)
qed

lemma call_model_result:
  "fst (call_model API_KEYS g w)
     = g (length (requests w)) (fst (getNextApiKey API_KEYS (keyUsageCount w)))"
  by (simp add: call_model_def split: prod.splits)

lemma analyzePageStructure_from_limited:
  assumes lim: "\<And>n key. \<exists>e. g n key = Inl e \<and> is_rate_limit e"
  shows "retryCount < length API_KEYS \<Longrightarrow>
     \<exists>e. is_rate_limit e \<and>
         fst (analyzePageStructure_from API_KEYS g p retryCount w) = Inl e \<and>
         length (requests (snd (analyzePageStructure_from API_KEYS g p retryCount w)))
           = length (requests w) + (length API_KEYS - retryCount)"
proof (induction "length API_KEYS - retryCount" arbitrary: retryCount w)
  case 0
  then show ?case by simp
next
  case (Suc d)
  obtain r w' where c: "call_model API_KEYS g w = (r, w')"
    by (cases "call_model API_KEYS g w") auto
  from lim call_model_result [of API_KEYS g w] c obtain e where
    e: "r = Inl e" "is_rate_limit e"
    by (metis fst_conv)
  from c e have t: "analyzePageStructure_try API_KEYS g p w = (Inl e, w')"
    by (simp add: analyzePageStructure_try_def)
  note rq = analyzePageStructure_try_requests [OF t]
  show ?case
  proof (cases "retryCount + 1 < length API_KEYS")
    case True
    with Suc.hyps(2) have "d = length API_KEYS - (retryCount + 1)"
      by simp
    from Suc.hyps(1) [OF this True, of w'] obtain e' where
      ih: "is_rate_limit e'"
        "fst (analyzePageStructure_from API_KEYS g p (retryCount + 1) w') = Inl e'"
        "length (requests (snd (analyzePageStructure_from API_KEYS g p (retryCount + 1) w')))
           = length (requests w') + (length API_KEYS - (retryCount + 1))"
      by blast
    have step: "analyzePageStructure_from API_KEYS g p retryCount w
        = analyzePageStructure_from API_KEYS g p (retryCount + 1) w'"
      using Suc.prems t e True
      by (simp add: analyzePageStructure_from.simps [of _ _ _ retryCount] Let_def)
    from ih rq True have "is_rate_limit e' \<and>
         fst (analyzePageStructure_from API_KEYS g p retryCount w) = Inl e' \<and>
         length (requests (snd (analyzePageStructure_from API_KEYS g p retryCount w)))
           = length (requests w) + (length API_KEYS - retryCount)"
      unfolding step by simp
    then show ?thesis
      by blast
  next
    case False
    with Suc.prems have "length API_KEYS - retryCount = 1"
      by simp
    with Suc.prems t e False rq show ?thesis
      by (simp add: analyzePageStructure_from.simps [of _ _ _ retryCount] Let_def)
  qed
qed

lemma extractQuestionsWithContext_from_limited:
  assumes lim: "\<And>n key. \<exists>e. g n key = Inl e \<and> is_rate_limit e"
  shows "retryCount < length API_KEYS \<Longrightarrow>
     \<exists>e. is_rate_limit e \<and>
         fst (extractQuestionsWithContext_from API_KEYS g p pageNumber retryCount w) = Inl e \<and>
         length (requests (snd (extractQuestionsWithContext_from API_KEYS g p pageNumber retryCount w)))
           = length (requests w) + (length API_KEYS - retryCount)"
proof (induction "length API_KEYS - retryCount" arbitrary: retryCount w)
  case 0
  then show ?case by simp
next
  case (Suc d)
  obtain r w' where c: "call_model API_KEYS g w = (r, w')"
    by (cases "call_model API_KEYS g w") auto
  from lim call_model_result [of API_KEYS g w] c obtain e where
    e: "r = Inl e" "is_rate_limit e"
    by (metis fst_conv)
  from c e have t: "extractQuestionsWithContext_try API_KEYS g p pageNumber w = (Inl e, w')"
    by (simp add: extractQuestionsWithContext_try_def)
  note rq = extractQuestionsWithContext_try_requests [OF t]
  show ?case
  proof (cases "retryCount + 1 < length API_KEYS")
    case True
    with Suc.hyps(2) have "d = length API_KEYS - (retryCount + 1)"
      by simp
    from Suc.hyps(1) [OF this True, of w'] obtain e' where
      ih: "is_rate_limit e'"
        "fst (extractQuestionsWithContext_from API_KEYS g p pageNumber (retryCount + 1) w') = Inl e'"
        "length (requests (snd (extractQuestionsWithContext_from API_KEYS g p pageNumber (retryCount + 1) w')))
           = length (requests w') + (length API_KEYS - (retryCount + 1))"
      by blast
    have step: "extractQuestionsWithContext_from API_KEYS g p pageNumber retryCount w
        = extractQuestionsWithContext_from API_KEYS g p pageNumber (retryCount + 1) w'"
      using Suc.prems t e True
      by (simp add: extractQuestionsWithContext_from.simps [of _ _ _ _ retryCount] Let_def)
    from ih rq True have "is_rate_limit e' \<and>
         fst (extractQuestionsWithContext_from API_KEYS g p pageNumber retryCount w) = Inl e' \<and>
         length (requests (snd (extractQuestionsWithContext_from API_KEYS g p pageNumber retryCount w)))
           = length (requests w) + (length API_KEYS - retryCount)"
      unfolding step by simp
    then show ?thesis
      by blast
  next
    case False
    with Suc.prems have "length API_KEYS - retryCount = 1"
      by simp
    with Suc.prems t e False rq show ?thesis
      by (simp add: extractQuestionsWithContext_from.simps [of _ _ _ _ retryCount] Let_def)
  qed
qed

lemma performExtraction_from_limited:
  assumes lim: "\<And>n key. \<exists>e. g n key = Inl e \<and> is_rate_limit e"
  shows "retryCount < length API_KEYS \<Longrightarrow>
     \<exists>e. is_rate_limit e \<and>
         fst (performExtraction_from API_KEYS g p pageNumber retryCount w)
           = Inl (exhausted_error (length API_KEYS) pageNumber e) \<and>
         length (requests (snd (performExtraction_from API_KEYS g p pageNumber retryCount w)))
           = length (requests w) + (length API_KEYS - retryCount)"
proof (induction "length API_KEYS - retryCount" arbitrary: retryCount w)
  case 0
  then show ?case by simp
next
  case (Suc d)
  obtain r w' where c: "call_model API_KEYS g w = (r, w')"
    by (cases "call_model API_KEYS g w") auto
  from lim call_model_result [of API_KEYS g w] c obtain e where
    e: "r = Inl e" "is_rate_limit e"
    by (metis fst_conv)
  from c e have t: "performExtraction_try API_KEYS g p pageNumber w = (Inl e, w')"
    by (simp add: performExtraction_try_def)
  note rq = performExtraction_try_requests [OF t]
  show ?case
  proof (cases "retryCount + 1 < length API_KEYS")
    case True
    with Suc.hyps(2) have "d = length API_KEYS - (retryCount + 1)"
      by simp
    from Suc.hyps(1) [OF this True, of w'] obtain e' where
      ih: "is_rate_limit e'"
        "fst (performExtraction_from API_KEYS g p pageNumber (retryCount + 1) w') = Inl (exhausted_error (length API_KEYS) pageNumber e')"
        "length (requests (snd (performExtraction_from API_KEYS g p pageNumber (retryCount + 1) w')))
           = length (requests w') + (length API_KEYS - (retryCount + 1))"
      by blast
    have step: "performExtraction_from API_KEYS g p pageNumber retryCount w
        = performExtraction_from API_KEYS g p pageNumber (retryCount + 1) w'"
      using Suc.prems t e True
      by (simp add: performExtraction_from.simps [of _ _ _ _ retryCount] Let_def)
    from ih rq True have "is_rate_limit e' \<and>
         fst (performExtraction_from API_KEYS g p pageNumber retryCount w) = Inl (exhausted_error (length API_KEYS) pageNumber e') \<and>
         length (requests (snd (performExtraction_from API_KEYS g p pageNumber retryCount w)))
           = length (requests w) + (length API_KEYS - retryCount)"
      unfolding step by simp
    then show ?thesis
      by blast
  next
    case False
    with Suc.prems have "length API_KEYS - retryCount = 1"
      by simp
    with Suc.prems t e False rq show ?thesis
      by (auto simp: performExtraction_from.simps [of _ _ _ _ retryCount] Let_def)
  qed
qed

lemma exhausted_messages_not_rate_limit:
  "\<not> is_rate_limit (Error (Some ''All API keys exhausted for page structure analysis''))"
  "\<not> is_rate_limit (Error (Some ''All API keys exhausted for question extraction''))"
  by (simp_all add: is_rate_limit_def)

lemma limited_first_call:
  "call_model [''k1'', ''k2''] limited_model world0
     = (Inl (Error (Some ''429 Too Many Requests'')),
        \<lparr>keyUsageCount = [''k1'' \<mapsto> Suc 0], requests = [''k1'']\<rparr>)"
  by (simp add: call_model_def world0_def limited_model_def usage_of_def)

lemma limited_second_call:
  "call_model [''k1'', ''k2''] limited_model
       \<lparr>keyUsageCount = [''k1'' \<mapsto> Suc 0], requests = [''k1'']\<rparr>
     = (Inl (Error (Some ''429 Too Many Requests'')),
        \<lparr>keyUsageCount = [''k1'' \<mapsto> Suc 0, ''k2'' \<mapsto> Suc 0], requests = [''k1'', ''k2'']\<rparr>)"
  by (simp add: call_model_def limited_model_def usage_of_def)

lemma too_many_requests_rate_limit: "is_rate_limit (Error (Some ''429 Too Many Requests''))"
  by (simp add: is_rate_limit_def)

text \<open>
  Claim C2, evaluated on a pool of two keys and a model that answers every request with
  the rate-limit error \<open>429 Too Many Requests\<close>. Each of the three functions issues
  exactly two requests, one per key. \<open>performExtraction\<close> then ends with the error
  \<open>All 2 API keys exhausted for page 7: ...\<close>; \<open>analyzePageStructure\<close> and
  \<open>extractQuestionsWithContext\<close> end with the rate-limit error of the last attempt
  itself, and their \<open>All API keys exhausted ...\<close> error behind the loop is never
  reached.
\<close>

theorem rate_limited_on_every_attempt:
  "is_rate_limit (Error (Some ''429 Too Many Requests'')) \<and>
   analyzePageStructure [''k1'', ''k2''] limited_model no_parse world0
     = (Inl (Error (Some ''429 Too Many Requests'')),
        \<lparr>keyUsageCount = [''k1'' \<mapsto> 1, ''k2'' \<mapsto> 1], requests = [''k1'', ''k2'']\<rparr>) \<and>
   extractQuestionsWithContext [''k1'', ''k2''] limited_model no_parse 7 world0
     = (Inl (Error (Some ''429 Too Many Requests'')),
        \<lparr>keyUsageCount = [''k1'' \<mapsto> 1, ''k2'' \<mapsto> 1], requests = [''k1'', ''k2'']\<rparr>) \<and>
   performExtraction [''k1'', ''k2''] limited_model no_parse 7 world0
     = (Inl (Error (Some ''All 2 API keys exhausted for page 7: 429 Too Many Requests'')),
        \<lparr>keyUsageCount = [''k1'' \<mapsto> 1, ''k2'' \<mapsto> 1], requests = [''k1'', ''k2'']\<rparr>)"
proof -
  have a: "analyzePageStructure [''k1'', ''k2''] limited_model no_parse world0
     = (Inl (Error (Some ''429 Too Many Requests'')),
        \<lparr>keyUsageCount = [''k1'' \<mapsto> 1, ''k2'' \<mapsto> 1], requests = [''k1'', ''k2'']\<rparr>)"
    by (simp add: analyzePageStructure_def analyzePageStructure_from.simps [of _ _ _ 0]
        analyzePageStructure_from.simps [of _ _ _ "Suc 0"] analyzePageStructure_try_def
        limited_first_call limited_second_call too_many_requests_rate_limit)
  have b: "extractQuestionsWithContext [''k1'', ''k2''] limited_model no_parse 7 world0
     = (Inl (Error (Some ''429 Too Many Requests'')),
        \<lparr>keyUsageCount = [''k1'' \<mapsto> 1, ''k2'' \<mapsto> 1], requests = [''k1'', ''k2'']\<rparr>)"
    by (simp add: extractQuestionsWithContext_def
        extractQuestionsWithContext_from.simps [of _ _ _ _ 0]
        extractQuestionsWithContext_from.simps [of _ _ _ _ "Suc 0"]
        extractQuestionsWithContext_try_def
        limited_first_call limited_second_call too_many_requests_rate_limit)
  have m: "show_nat (Suc (Suc 0)) = ''2''" "show_nat 7 = ''7''"
    by (simp_all add: show_nat.simps digit_char_def)
  have c: "performExtraction [''k1'', ''k2''] limited_model no_parse 7 world0
     = (Inl (Error (Some ''All 2 API keys exhausted for page 7: 429 Too Many Requests'')),
        \<lparr>keyUsageCount = [''k1'' \<mapsto> 1, ''k2'' \<mapsto> 1], requests = [''k1'', ''k2'']\<rparr>)"
    by (simp add: performExtraction_def
        performExtraction_from.simps [of _ _ _ _ 0]
        performExtraction_from.simps [of _ _ _ _ "Suc 0"]
        performExtraction_try_def exhausted_error_def message_text_def m
        limited_first_call limited_second_call too_many_requests_rate_limit)
  from too_many_requests_rate_limit a b c show ?thesis
    by blast
qed

section \<open>Properties of the response decoder\<close>

lemma stamp_fields:
  "page_number (stamp pageNumber q) = pageNumber"
  "confidence_score (stamp pageNumber q)
     = Some (case confidence_score q of None \<Rightarrow> 1 | Some c \<Rightarrow> if c = 0 then 1 else c)"
  "question_number (stamp pageNumber q) = question_number q"
  "question_type (stamp pageNumber q) = question_type q"
  "question_statement (stamp pageNumber q) = question_statement q"
  "options (stamp pageNumber q) = options q"
  by (simp_all add: stamp_def)

text \<open>
  Claim C5, evaluated on a decoded record that reports page 9 and the confidence score
  0, for the page 7 under analysis. The page number of the result is 7. The confidence
  score of the result is 1, not the decoded 0: \<^verbatim>\<open>q.confidence_score || 1.0\<close> takes the
  number 0 for an absent score. A decoded score other than 0 is kept, and an absent one
  becomes 1.
\<close>

theorem stamp_zero_confidence:
  "page_number (sample_question\<lparr>confidence_score := Some 0\<rparr>) = 9 \<and>
   map page_number (map (stamp 7) [sample_question\<lparr>confidence_score := Some 0\<rparr>]) = [7] \<and>
   map confidence_score (map (stamp 7) [sample_question\<lparr>confidence_score := Some 0\<rparr>]) = [Some 1] \<and>
   map confidence_score (map (stamp 7) [sample_question\<lparr>confidence_score := Some (1/2)\<rparr>]) = [Some (1/2)] \<and>
   map confidence_score (map (stamp 7) [sample_question\<lparr>confidence_score := None\<rparr>]) = [Some 1]"
  by (simp add: stamp_def sample_question_def)

lemma starts_with_iff: "starts_with s p \<longleftrightarrow> (\<exists>r. s = p @ r)"
  by (induction s p rule: starts_with.induct) auto

lemma find_after_Some:
  "find_after sub text = Some rest \<Longrightarrow> \<exists>pre. text = pre @ sub @ rest"
proof (induction "text")
  case Nil
  then show ?case by (simp split: if_splits)
next
  case (Cons c cs)
  show ?case
  proof (cases "starts_with (c # cs) sub")
    case True
    then obtain r where r: "c # cs = sub @ r"
      by (auto simp: starts_with_iff)
    from Cons.prems True have "rest = drop (length sub) (c # cs)"
      by simp
    with r have "rest = r"
      by simp
    with r have "c # cs = [] @ sub @ rest"
      by simp
    then show ?thesis by blast
  next
    case False
    with Cons.prems have "find_after sub cs = Some rest"
      by simp
    from Cons.IH [OF this] obtain pre where "cs = pre @ sub @ rest"
      by blast
    then have "c # cs = (c # pre) @ sub @ rest"
      by simp
    then show ?thesis by blast
  qed
qed

lemma lazy_group_Some:
  "lazy_group s = Some g \<Longrightarrow>
     \<exists>ws post. s = g @ ws @ ''```'' @ post \<and> (\<forall>c\<in>set ws. is_space c)"
proof (induction s arbitrary: g)
  case Nil
  then show ?case by simp
next
  case (Cons c cs)
  show ?case
  proof (cases "starts_with (dropWhile is_space (c # cs)) ''```''")
    case True
    then obtain post where post: "dropWhile is_space (c # cs) = ''```'' @ post"
      by (auto simp: starts_with_iff)
    from Cons.prems True have g: "g = []"
      by simp
    define s where "s = c # cs"
    have "s = takeWhile is_space s @ dropWhile is_space s"
      by simp
    with post g have "s = g @ takeWhile is_space s @ ''```'' @ post"
      unfolding s_def [symmetric] by simp
    moreover have "\<forall>x\<in>set (takeWhile is_space s). is_space x"
      by (meson set_takeWhileD)
    ultimately show ?thesis
      unfolding s_def by blast
  next
    case False
    with Cons.prems obtain g' where g': "lazy_group cs = Some g'" "g = c # g'"
      by auto
    from Cons.IH [OF g'(1)] obtain ws post where
      "cs = g' @ ws @ ''```'' @ post" "\<forall>c\<in>set ws. is_space c"
      by blast
    with g'(2) have "c # cs = g @ ws @ ''```'' @ post \<and> (\<forall>c\<in>set ws. is_space c)"
      by simp
    then show ?thesis by blast
  qed
qed

lemma match_code_block_Some:
  assumes "match_code_block text = Some g"
  shows "\<exists>pre ws1 ws2 post. text = pre @ ''```json'' @ ws1 @ g @ ws2 @ ''```'' @ post \<and>
           (\<forall>c\<in>set ws1. is_space c) \<and> (\<forall>c\<in>set ws2. is_space c)"
proof -
  from assms obtain rest where rest: "find_after ''```json'' text = Some rest"
    and lg: "lazy_group (dropWhile is_space rest) = Some g"
    by (auto simp: match_code_block_def split: option.splits)
  from find_after_Some [OF rest] obtain pre where pre: "text = pre @ ''```json'' @ rest"
    by blast
  from lazy_group_Some [OF lg] obtain ws2 post where
    d: "dropWhile is_space rest = g @ ws2 @ ''```'' @ post" and ws2: "\<forall>c\<in>set ws2. is_space c"
    by blast
  have "rest = takeWhile is_space rest @ dropWhile is_space rest"
    by simp
  with d pre have "text = pre @ ''```json'' @ takeWhile is_space rest @ g @ ws2 @ ''```'' @ post"
    by simp
  moreover have "\<forall>x\<in>set (takeWhile is_space rest). is_space x"
    by (meson set_takeWhileD)
  ultimately show ?thesis
    using ws2 by blast
qed

lemma match_span_Some:
  assumes "match_span a b text = Some m"
  shows "\<exists>pre mid post. text = pre @ m @ post \<and> m = a # mid @ [b] \<and>
           a \<notin> set pre \<and> b \<notin> set post"
proof -
  let ?P = "\<lambda>c. c \<noteq> a" and ?Q = "\<lambda>c. c \<noteq> b"
  from assms obtain x inner where d: "dropWhile ?P text = x # inner"
    by (auto simp: match_span_def split: list.splits)
  from d have x: "x = a"
    by (metis (mono_tags, lifting) hd_dropWhile list.discI list.sel(1))
  let ?body = "rev (dropWhile ?Q (rev inner))"
  have body: "?body \<noteq> [] \<and> m = a # ?body"
    using assms d x by (cases "?body") (simp_all add: match_span_def)
  have "hd (dropWhile ?Q (rev inner)) = b"
    using body by (metis (mono_tags, lifting) hd_dropWhile rev_is_Nil_conv)
  with body have "last ?body = b"
    by (simp add: last_rev)
  with body obtain mid where mid: "?body = mid @ [b]"
    by (metis append_butlast_last_id)
  have "rev inner = takeWhile ?Q (rev inner) @ dropWhile ?Q (rev inner)"
    by simp
  then have "inner = ?body @ rev (takeWhile ?Q (rev inner))"
    by (metis rev_append rev_rev_ident)
  moreover have "text = takeWhile ?P text @ dropWhile ?P text"
    by simp
  ultimately have "text = takeWhile ?P text @ m @ rev (takeWhile ?Q (rev inner))"
    using d x body by simp
  moreover have "a \<notin> set (takeWhile ?P text)"
    by (auto dest: set_takeWhileD)
  moreover have "b \<notin> set (rev (takeWhile ?Q (rev inner)))"
    by (auto dest: set_takeWhileD)
  ultimately show ?thesis
    using body mid by blast
qed

lemma dropWhile_first:
  "\<exists>us. dropWhile (\<lambda>c. c \<noteq> a) (pre @ a # rest) = a # us @ rest"
proof (induction pre)
  case Nil
  then show ?case by simp
next
  case (Cons p pre)
  show ?case
  proof (cases "p = a")
    case True
    then have "dropWhile (\<lambda>c. c \<noteq> a) ((p # pre) @ a # rest) = a # (pre @ [a]) @ rest"
      by simp
    then show ?thesis by blast
  next
    case False
    with Cons.IH show ?thesis by simp
  qed
qed

lemma match_span_None:
  "match_span a b t = None \<longleftrightarrow> \<not> (\<exists>pre mid post. t = pre @ a # mid @ b # post)"
proof
  assume n: "match_span a b t = None"
  show "\<not> (\<exists>pre mid post. t = pre @ a # mid @ b # post)"
  proof
    assume "\<exists>pre mid post. t = pre @ a # mid @ b # post"
    then obtain pre mid post where t: "t = pre @ a # mid @ b # post"
      by blast
    from dropWhile_first [of a pre "mid @ b # post"] t obtain us where
      d: "dropWhile (\<lambda>c. c \<noteq> a) t = a # us @ mid @ b # post"
      by auto
    have "b \<in> set (rev (us @ mid @ b # post))"
      by simp
    then have "dropWhile (\<lambda>c. c \<noteq> b) (rev (us @ mid @ b # post)) \<noteq> []"
      unfolding dropWhile_eq_Nil_conv by blast
    then have "rev (dropWhile (\<lambda>c. c \<noteq> b) (rev (us @ mid @ b # post))) \<noteq> []"
      by simp
    with n d show False
      by (cases "rev (dropWhile (\<lambda>c. c \<noteq> b) (rev (us @ mid @ b # post)))")
        (simp_all add: match_span_def)
  qed
next
  assume n: "\<not> (\<exists>pre mid post. t = pre @ a # mid @ b # post)"
  show "match_span a b t = None"
  proof (rule ccontr)
    assume "match_span a b t \<noteq> None"
    then obtain m where "match_span a b t = Some m"
      by auto
    from match_span_Some [OF this] obtain pre mid post where
      "t = pre @ (a # mid @ [b]) @ post"
      by blast
    then have "t = pre @ a # mid @ b # post"
      by simp
    with n show False
      by blast
  qed
qed

lemma find_after_first:
  "\<exists>us. find_after sub (pre @ sub @ r) = Some (us @ r)"
proof (induction pre)
  case Nil
  show ?case
  proof (cases "sub @ r")
    case Nil
    then show ?thesis by simp
  next
    case (Cons c cs)
    have "starts_with (sub @ r) sub"
      by (auto simp: starts_with_iff)
    with Cons have "find_after sub (sub @ r) = Some (drop (length sub) (sub @ r))"
      by simp
    then have "find_after sub ([] @ sub @ r) = Some ([] @ r)"
      by simp
    then show ?thesis by blast
  qed
next
  case (Cons p pre)
  show ?case
  proof (cases "starts_with (p # pre @ sub @ r) sub")
    case True
    then have "find_after sub ((p # pre) @ sub @ r)
        = Some (drop (length sub) ((p # pre @ sub) @ r))"
      by simp
    also have "drop (length sub) ((p # pre @ sub) @ r) = drop (length sub) (p # pre @ sub) @ r"
      unfolding drop_append by simp
    finally show ?thesis by blast
  next
    case False
    with Cons.IH show ?thesis by simp
  qed
qed

lemma dropWhile_stops:
  "\<not> P c \<Longrightarrow> \<exists>ys. dropWhile P (xs @ c # zs) = ys @ c # zs"
proof (induction xs)
  case Nil
  then have "dropWhile P ([] @ c # zs) = [] @ c # zs"
    by simp
  then show ?case by blast
next
  case (Cons x xs)
  show ?case
  proof (cases "P x")
    case True
    with Cons show ?thesis by simp
  next
    case False
    then have "dropWhile P ((x # xs) @ c # zs) = (x # xs) @ c # zs"
      by simp
    then show ?thesis by blast
  qed
qed

lemma backquote_no_space: "\<not> is_space (CHR ''`'')"
  by (simp add: is_space_def)

lemma lazy_group_closing: "lazy_group (ys @ ''```'' @ post) \<noteq> None"
proof (induction ys)
  case Nil
  show ?case
    by (simp add: backquote_no_space)
next
  case (Cons y ys)
  then show ?case
    by (cases "starts_with (dropWhile is_space (y # ys @ ''```'' @ post)) ''```''") auto
qed

lemma match_code_block_None:
  "match_code_block t = None \<longleftrightarrow>
     \<not> (\<exists>pre mid post. t = pre @ ''```json'' @ mid @ ''```'' @ post)"
proof
  assume n: "match_code_block t = None"
  show "\<not> (\<exists>pre mid post. t = pre @ ''```json'' @ mid @ ''```'' @ post)"
  proof
    assume "\<exists>pre mid post. t = pre @ ''```json'' @ mid @ ''```'' @ post"
    then obtain pre mid post where t: "t = pre @ ''```json'' @ (mid @ ''```'' @ post)"
      by auto
    from find_after_first [of "''```json''" pre "mid @ ''```'' @ post"] t obtain us where
      f: "find_after ''```json'' t = Some (us @ mid @ ''```'' @ post)"
      by auto
    from dropWhile_stops [of is_space "CHR ''`''" "us @ mid" "''``'' @ post", OF backquote_no_space]
    obtain ys where
      "dropWhile is_space (us @ mid @ ''```'' @ post) = ys @ ''```'' @ post"
      by auto
    with lazy_group_closing [of ys post]
    have "lazy_group (dropWhile is_space (us @ mid @ ''```'' @ post)) \<noteq> None"
      by simp
    with n f show False
      by (simp add: match_code_block_def)
  qed
next
  assume n: "\<not> (\<exists>pre mid post. t = pre @ ''```json'' @ mid @ ''```'' @ post)"
  show "match_code_block t = None"
  proof (rule ccontr)
    assume "match_code_block t \<noteq> None"
    then obtain g where "match_code_block t = Some g"
      by auto
    from match_code_block_Some [OF this] obtain pre ws1 ws2 post where
      "t = pre @ ''```json'' @ (ws1 @ g @ ws2) @ ''```'' @ post"
      by auto
    with n show False
      by blast
  qed
qed

lemma locate_json_None:
  "locate_json t = None \<longleftrightarrow> match_array t = None \<and> match_code_block t = None"
  by (simp add: locate_json_def split: option.splits)

lemma extractQuestionsWithContext_from_text:
  assumes "retryCount < length API_KEYS" and "call_model API_KEYS g w = (Inr t, w')"
  shows "extractQuestionsWithContext_from API_KEYS g parse n retryCount w
           = (Inr (extractQuestionsWithContext_decode parse n t), w')"
  using assms
  by (simp add: extractQuestionsWithContext_from.simps [of _ _ _ _ retryCount]
      extractQuestionsWithContext_try_def)

lemma performExtraction_from_text:
  assumes "retryCount < length API_KEYS" and "call_model API_KEYS g w = (Inr t, w')"
  shows "performExtraction_from API_KEYS g parse n retryCount w
           = (Inr (performExtraction_decode parse n t), w')"
  using assms
  by (simp add: performExtraction_from.simps [of _ _ _ _ retryCount]
      performExtraction_try_def)

lemma replace_char_set:
  "set (replace_char c by s) \<subseteq> (set s - {c}) \<union> set by"
  by (auto simp: replace_char_def split: if_splits)

lemma fixJson_no_control:
  "CHR 0x0A \<notin> set (fixJson s) \<and> CHR 0x09 \<notin> set (fixJson s) \<and> CHR 0x0D \<notin> set (fixJson s)"
proof -
  let ?a = "collapse_runs 0 (escape_backslashes s)"
  let ?b = "replace_char (CHR 0x0A) [backslash, CHR ''n''] ?a"
  let ?c = "replace_char (CHR 0x09) [backslash, CHR ''t''] ?b"
  have b: "CHR 0x0A \<notin> set ?b"
    using replace_char_set [of "CHR 0x0A" "[backslash, CHR ''n'']" ?a] by auto
  have c: "CHR 0x0A \<notin> set ?c \<and> CHR 0x09 \<notin> set ?c"
    using b replace_char_set [of "CHR 0x09" "[backslash, CHR ''t'']" ?b] by auto
  have "fixJson s = replace_char (CHR 0x0D) [backslash, CHR ''r''] ?c"
    by (simp add: fixJson_def)
  with c replace_char_set [of "CHR 0x0D" "[backslash, CHR ''r'']" ?c] show ?thesis
    by auto
qed

lemma sample_located: "locate_json sample_text = Some sample_text"
  by (simp add: locate_json_def match_array_def match_span_def sample_text_def
      sample_json_def quoted_def)

lemma sample_fixed: "fixJson sample_text = sample_repaired"
  by (simp add: fixJson_def sample_text_def sample_repaired_def sample_json_def quoted_def
      replace_char_def)

lemma sample_strict:
  "sample_parse sample_text = Inl (Error (Some ''SyntaxError: Bad escaped character in JSON''))"
  by (simp add: sample_parse_def sample_text_def sample_repaired_def sample_json_def quoted_def)

lemma sample_second: "sample_parse sample_repaired = Inr [sample_question]"
  by (simp add: sample_parse_def)

lemma sample_call:
  "call_model [''k1''] sample_model world0
     = (Inr sample_text, \<lparr>keyUsageCount = [''k1'' \<mapsto> Suc 0], requests = [''k1'']\<rparr>)"
  by (simp add: call_model_def world0_def usage_of_def sample_model_def)

lemma plain_call:
  "call_model [''k1''] plain_model world0
     = (Inr ''no questions here'', \<lparr>keyUsageCount = [''k1'' \<mapsto> Suc 0], requests = [''k1'']\<rparr>)"
  by (simp add: call_model_def world0_def usage_of_def plain_model_def)

text \<open>
  Claim C8. The candidate is the match of \<^verbatim>\<open>/\[[\s\S]*\]/\<close> when there is one: the
  span from the first opening bracket of the text to its last closing bracket. Only when
  there is none, the candidate is the inside of the first fenced block labelled
  \<open>json\<close>, without the white space at its two ends. There is no candidate exactly when
  the text has no opening bracket with a closing bracket behind it and no \<open>```json\<close>
  with a closing fence behind it; then both decoders return the empty list, and the call
  that received the text returns the empty list as its result, not an error.
\<close>

theorem locate_json_strategy:
  "(match_array txt = Some m \<longrightarrow>
      locate_json txt = Some m \<and>
      (\<exists>pre mid post. txt = pre @ m @ post \<and> m = CHR ''['' # mid @ [CHR '']''] \<and>
         CHR ''['' \<notin> set pre \<and> CHR '']'' \<notin> set post)) \<and>
   (match_array txt = None \<longrightarrow> locate_json txt = match_code_block txt) \<and>
   (match_code_block txt = Some b \<longrightarrow>
      (\<exists>pre ws1 ws2 post. txt = pre @ ''```json'' @ ws1 @ b @ ws2 @ ''```'' @ post \<and>
         (\<forall>c\<in>set ws1. is_space c) \<and> (\<forall>c\<in>set ws2. is_space c))) \<and>
   (locate_json txt = None \<longleftrightarrow>
      \<not> (\<exists>pre mid post. txt = pre @ CHR ''['' # mid @ CHR '']'' # post) \<and>
      \<not> (\<exists>pre mid post. txt = pre @ ''```json'' @ mid @ ''```'' @ post)) \<and>
   (locate_json txt = None \<longrightarrow>
      extractQuestionsWithContext_decode parse n txt = [] \<and>
      performExtraction_decode parse n txt = [] \<and>
      (retryCount < length API_KEYS \<and> call_model API_KEYS g w = (Inr txt, w') \<longrightarrow>
         extractQuestionsWithContext_from API_KEYS g parse n retryCount w = (Inr [], w') \<and>
         performExtraction_from API_KEYS g parse n retryCount w = (Inr [], w')))"
proof (intro conjI impI)
  assume m: "match_array txt = Some m"
  then show "locate_json txt = Some m"
    by (simp add: locate_json_def)
  from m show "\<exists>pre mid post. txt = pre @ m @ post \<and> m = CHR ''['' # mid @ [CHR '']''] \<and>
         CHR ''['' \<notin> set pre \<and> CHR '']'' \<notin> set post"
    unfolding match_array_def by (rule match_span_Some)
next
  assume "match_array txt = None"
  then show "locate_json txt = match_code_block txt"
    by (simp add: locate_json_def split: option.splits)
next
  assume "match_code_block txt = Some b"
  then show "\<exists>pre ws1 ws2 post. txt = pre @ ''```json'' @ ws1 @ b @ ws2 @ ''```'' @ post \<and>
         (\<forall>c\<in>set ws1. is_space c) \<and> (\<forall>c\<in>set ws2. is_space c)"
    by (rule match_code_block_Some)
next
  show "locate_json txt = None \<longleftrightarrow>
      \<not> (\<exists>pre mid post. txt = pre @ CHR ''['' # mid @ CHR '']'' # post) \<and>
      \<not> (\<exists>pre mid post. txt = pre @ ''```json'' @ mid @ ''```'' @ post)"
    unfolding locate_json_None match_array_def match_span_None match_code_block_None ..
next
  assume n: "locate_json txt = None"
  then show d1: "extractQuestionsWithContext_decode parse n txt = []"
    by (simp add: extractQuestionsWithContext_decode_def)
  from n show d2: "performExtraction_decode parse n txt = []"
    by (simp add: performExtraction_decode_def)
  assume c: "retryCount < length API_KEYS \<and> call_model API_KEYS g w = (Inr txt, w')"
  with d1 show "extractQuestionsWithContext_from API_KEYS g parse n retryCount w = (Inr [], w')"
    by (simp add: extractQuestionsWithContext_from_text)
  from c d2 show "performExtraction_from API_KEYS g parse n retryCount w = (Inr [], w')"
    by (simp add: performExtraction_from_text)
qed

theorem locate_json_strategy_witness:
  "match_array ''See [1, 2] and [3].'' = Some ''[1, 2] and [3]'' \<and>
   locate_json ''See [1, 2] and [3].'' = Some ''[1, 2] and [3]'' \<and>
   match_array ''Here: ```json  {a}  ``` done'' = None \<and>
   locate_json ''Here: ```json  {a}  ``` done'' = Some ''{a}'' \<and>
   locate_json ''no questions here'' = None \<and>
   extractQuestionsWithContext_decode no_parse 7 ''no questions here'' = [] \<and>
   performExtraction_decode no_parse 7 ''no questions here'' = [] \<and>
   extractQuestionsWithContext_from [''k1''] plain_model no_parse 7 0 world0
     = (Inr [], \<lparr>keyUsageCount = [''k1'' \<mapsto> Suc 0], requests = [''k1'']\<rparr>) \<and>
   performExtraction_from [''k1''] plain_model no_parse 7 0 world0
     = (Inr [], \<lparr>keyUsageCount = [''k1'' \<mapsto> Suc 0], requests = [''k1'']\<rparr>)"
proof -
  let ?w = "\<lparr>keyUsageCount = [''k1'' \<mapsto> Suc 0], requests = [''k1'']\<rparr>"
  have a: "match_array ''See [1, 2] and [3].'' = Some ''[1, 2] and [3]''"
    by (simp add: match_array_def match_span_def)
  from locate_json_strategy [of "''See [1, 2] and [3].''" "''[1, 2] and [3]''"] a
  have a': "locate_json ''See [1, 2] and [3].'' = Some ''[1, 2] and [3]''"
    by blast
  have b: "match_array ''Here: ```json  {a}  ``` done'' = None"
    by (simp add: match_array_def match_span_def)
  have "match_code_block ''Here: ```json  {a}  ``` done'' = Some ''{a}''"
    by (simp add: match_code_block_def is_space_def)
  with locate_json_strategy [of "''Here: ```json  {a}  ``` done''"] b
  have b': "locate_json ''Here: ```json  {a}  ``` done'' = Some ''{a}''"
    by simp
  have r: "(0::nat) < length [''k1''] \<and>
      call_model [''k1''] plain_model world0 = (Inr ''no questions here'', ?w)"
    by (simp add: plain_call)
  note th = locate_json_strategy [of "''no questions here''" _ _ no_parse 7 0 "[''k1'']"
      plain_model world0 ?w]
  from th no_json_in_flaky_text
  have c: "extractQuestionsWithContext_decode no_parse 7 ''no questions here'' = []"
    "performExtraction_decode no_parse 7 ''no questions here'' = []"
    by blast+
  from th no_json_in_flaky_text r
  have d: "extractQuestionsWithContext_from [''k1''] plain_model no_parse 7 0 world0
       = (Inr [], ?w)"
    "performExtraction_from [''k1''] plain_model no_parse 7 0 world0
       = (Inr [], ?w)"
    by blast+
  from a a' b b' no_json_in_flaky_text c d show ?thesis
    by blast
qed

text \<open>
  Claim C3, as amended. For a located candidate whose strict parse throws:
  \<open>extractQuestionsWithContext\<close> parses the repaired candidate \<open>fixJson jsonMatch\<close>
  once more, returns the stamped records of that second parse, and returns the empty
  list when the second parse throws as well; the repaired candidate holds no line feed,
  tab or carriage return. \<open>performExtraction\<close> makes no repair and returns the empty
  list at once. In both, the call that received the text returns its list as a result:
  the decode failure is not thrown.
\<close>

theorem decode_failure_handling:
  assumes "locate_json txt = Some jsonMatch" and "parse jsonMatch = Inl parseError"
  shows "extractQuestionsWithContext_decode parse n txt
           = (case parse (fixJson jsonMatch) of
                Inr questions \<Rightarrow> map (stamp n) questions
              | Inl secondParseError \<Rightarrow> []) \<and>
         CHR 0x0A \<notin> set (fixJson jsonMatch) \<and> CHR 0x09 \<notin> set (fixJson jsonMatch) \<and>
         CHR 0x0D \<notin> set (fixJson jsonMatch) \<and>
         performExtraction_decode parse n txt = [] \<and>
         (retryCount < length API_KEYS \<and> call_model API_KEYS g w = (Inr txt, w') \<longrightarrow>
            extractQuestionsWithContext_from API_KEYS g parse n retryCount w
              = (Inr (extractQuestionsWithContext_decode parse n txt), w') \<and>
            performExtraction_from API_KEYS g parse n retryCount w = (Inr [], w'))"
proof -
  from assms have d1: "extractQuestionsWithContext_decode parse n txt
           = (case parse (fixJson jsonMatch) of
                Inr questions \<Rightarrow> map (stamp n) questions
              | Inl secondParseError \<Rightarrow> [])"
    by (simp add: extractQuestionsWithContext_decode_def)
  from assms have d2: "performExtraction_decode parse n txt = []"
    by (simp add: performExtraction_decode_def)
  from d1 d2 fixJson_no_control [of jsonMatch] show ?thesis
    by (simp add: extractQuestionsWithContext_from_text performExtraction_from_text)
qed

theorem decode_failure_handling_witness:
  "locate_json sample_text = Some sample_text \<and>
   sample_parse sample_text = Inl (Error (Some ''SyntaxError: Bad escaped character in JSON'')) \<and>
   extractQuestionsWithContext_decode sample_parse 3 sample_text = [stamp 3 sample_question] \<and>
   performExtraction_decode sample_parse 3 sample_text = [] \<and>
   extractQuestionsWithContext_from [''k1''] sample_model sample_parse 3 0 world0
     = (Inr [stamp 3 sample_question],
        \<lparr>keyUsageCount = [''k1'' \<mapsto> Suc 0], requests = [''k1'']\<rparr>) \<and>
   performExtraction_from [''k1''] sample_model sample_parse 3 0 world0
     = (Inr [], \<lparr>keyUsageCount = [''k1'' \<mapsto> Suc 0], requests = [''k1'']\<rparr>)"
proof -
  let ?w = "\<lparr>keyUsageCount = [''k1'' \<mapsto> Suc 0], requests = [''k1'']\<rparr>"
  note th = decode_failure_handling [of sample_text sample_text sample_parse _ 3 0 "[''k1'']"
      sample_model world0 ?w, OF sample_located sample_strict]
  have r: "(0::nat) < length [''k1''] \<and>
      call_model [''k1''] sample_model world0 = (Inr sample_text, ?w)"
    by (simp add: sample_call)
  from th have d1: "extractQuestionsWithContext_decode sample_parse 3 sample_text
      = [stamp 3 sample_question]"
    by (simp add: sample_fixed sample_second)
  from th have d2: "performExtraction_decode sample_parse 3 sample_text = []"
    by blast
  from th r d1 have e1: "extractQuestionsWithContext_from [''k1''] sample_model
      sample_parse 3 0 world0 = (Inr [stamp 3 sample_question], ?w)"
    by simp
  from th r have e2: "performExtraction_from [''k1''] sample_model
      sample_parse 3 0 world0 = (Inr [], ?w)"
    by blast
  from sample_located sample_strict d1 d2 e1 e2 show ?thesis
    by blast
qed

text \<open>
  The claim as stated fails for \<open>performExtraction\<close>: the candidate of \<open>sample_text\<close>
  is located, its strict parse throws, the repaired candidate would parse to one
  record, and the result is the empty list: no repair pass is made.
\<close>

theorem performExtraction_makes_no_repair:
  "locate_json sample_text = Some sample_text \<and>
   sample_parse sample_text = Inl (Error (Some ''SyntaxError: Bad escaped character in JSON'')) \<and>
   sample_parse (fixJson sample_text) = Inr [sample_question] \<and>
   performExtraction_decode sample_parse 3 sample_text = [] \<and>
   performExtraction [''k1''] sample_model sample_parse 3 world0
     = (Inr [], \<lparr>keyUsageCount = [''k1'' \<mapsto> Suc 0], requests = [''k1'']\<rparr>)"
  by (simp add: sample_located sample_strict sample_fixed sample_second
      performExtraction_decode_def performExtraction_def performExtraction_from_text sample_call)

section \<open>Properties of saving\<close>










lemma trim_empty: "trim s = [] \<longleftrightarrow> (\<forall>c\<in>set s. is_space c)"
proof -
  have "trim s = [] \<longleftrightarrow> (\<forall>c\<in>set (dropWhile is_space s). is_space c)"
    by (simp add: trim_def dropWhile_eq_Nil_conv)
  also have "\<dots> \<longleftrightarrow> dropWhile is_space s = []"
    by (metis dropWhile_eq_Nil_conv dropWhile_idem)
  also have "\<dots> \<longleftrightarrow> (\<forall>c\<in>set s. is_space c)"
    by (simp add: dropWhile_eq_Nil_conv)
  finally show ?thesis .
qed










lemma savePdfQuestions_none_valid:
  "filter valid_row (map (to_row selectedCourse y) questions) = [] \<Longrightarrow>
     savePdfQuestions db_insert selectedCourse questions y submitted
       = (Inl (Error (Some ''No valid questions to save'')), submitted)"
  by (simp add: savePdfQuestions_def)

lemma savePdfQuestions_some_valid:
  "filter valid_row (map (to_row selectedCourse y) questions) \<noteq> [] \<Longrightarrow>
     snd (savePdfQuestions db_insert selectedCourse questions y submitted)
       = submitted @ [filter valid_row (map (to_row selectedCourse y) questions)]"
  by (simp add: savePdfQuestions_def Let_def split: sum.splits)


lemma year_2024: "parseInt ''2024'' = Some 2024"
  by (simp add: parseInt_def parse_digits_def digit_value_def is_space_def Let_def)


lemma trim_positive: "0 < length (trim s) \<longleftrightarrow> (\<exists>c\<in>set s. \<not> is_space c)"
  using trim_empty [of s] by auto

lemma valid_row_to_row:
  "valid_row (to_row selectedCourse y q) \<longleftrightarrow>
     (\<exists>c\<in>set (question_statement q). \<not> is_space c) \<and>
     question_type q \<in> set [''MCQ'', ''MSQ'', ''NAT'', ''Subjective''] \<and>
     selectedCourse \<noteq> [] \<and>
     (\<exists>yr. parseInt y = Some yr \<and> 2000 < yr \<and> yr < 2030)"
  unfolding valid_row_def to_row_def trim_positive
  by (cases "parseInt y") auto

text \<open>
  Claim C10, as amended. \<open>savePdfQuestions\<close> hands to the storage exactly the rows that
  pass its filter, in one batch; when no row passes, it raises
  \<open>No valid questions to save\<close> and hands nothing over. A row passes when its statement
  holds a character that is not white space, its type is one of the four tags, the course
  is set and the year parses to a number strictly between 2000 and 2030; a row that
  passes has such a statement, such a type, a course, and a year from 2000 to 2030.
\<close>

theorem savePdfQuestions_filter:
  "(filter valid_row (map (to_row selectedCourse y) questions) = [] \<longrightarrow>
      savePdfQuestions db_insert selectedCourse questions y submitted
        = (Inl (Error (Some ''No valid questions to save'')), submitted)) \<and>
   (filter valid_row (map (to_row selectedCourse y) questions) \<noteq> [] \<longrightarrow>
      snd (savePdfQuestions db_insert selectedCourse questions y submitted)
        = submitted @ [filter valid_row (map (to_row selectedCourse y) questions)]) \<and>
   ((\<exists>c\<in>set (question_statement q). \<not> is_space c) \<and>
    question_type q \<in> set [''MCQ'', ''MSQ'', ''NAT'', ''Subjective''] \<and>
    selectedCourse \<noteq> [] \<and>
    (\<exists>yr. parseInt y = Some yr \<and> 2000 < yr \<and> yr < 2030)
      \<longrightarrow> valid_row (to_row selectedCourse y q)) \<and>
   (valid_row (to_row selectedCourse y q) \<longrightarrow>
      (\<exists>c\<in>set (question_statement q). \<not> is_space c) \<and>
      question_type q \<in> set [''MCQ'', ''MSQ'', ''NAT'', ''Subjective''] \<and>
      selectedCourse \<noteq> [] \<and>
      (\<exists>yr. parseInt y = Some yr \<and> 2000 \<le> yr \<and> yr \<le> 2030))"
proof (intro conjI impI)
  assume "filter valid_row (map (to_row selectedCourse y) questions) = []"
  then show "savePdfQuestions db_insert selectedCourse questions y submitted
        = (Inl (Error (Some ''No valid questions to save'')), submitted)"
    by (rule savePdfQuestions_none_valid)
next
  assume "filter valid_row (map (to_row selectedCourse y) questions) \<noteq> []"
  then show "snd (savePdfQuestions db_insert selectedCourse questions y submitted)
        = submitted @ [filter valid_row (map (to_row selectedCourse y) questions)]"
    by (rule savePdfQuestions_some_valid)
next
  assume "(\<exists>c\<in>set (question_statement q). \<not> is_space c) \<and>
    question_type q \<in> set [''MCQ'', ''MSQ'', ''NAT'', ''Subjective''] \<and>
    selectedCourse \<noteq> [] \<and>
    (\<exists>yr. parseInt y = Some yr \<and> 2000 < yr \<and> yr < 2030)"
  then show "valid_row (to_row selectedCourse y q)"
    unfolding valid_row_to_row .
next
  assume "valid_row (to_row selectedCourse y q)"
  then have v: "(\<exists>c\<in>set (question_statement q). \<not> is_space c) \<and>
    question_type q \<in> set [''MCQ'', ''MSQ'', ''NAT'', ''Subjective''] \<and>
    selectedCourse \<noteq> [] \<and>
    (\<exists>yr. parseInt y = Some yr \<and> 2000 < yr \<and> yr < 2030)"
    unfolding valid_row_to_row .
  then show "\<exists>c\<in>set (question_statement q). \<not> is_space c"
    and "question_type q \<in> set [''MCQ'', ''MSQ'', ''NAT'', ''Subjective'']"
    and "selectedCourse \<noteq> []"
    by blast+
  from v obtain yr where "parseInt y = Some yr" "2000 < yr" "yr < 2030"
    by blast
  then have "parseInt y = Some yr \<and> 2000 \<le> yr \<and> yr \<le> 2030"
    by simp
  then show "\<exists>yr. parseInt y = Some yr \<and> 2000 \<le> yr \<and> yr \<le> 2030"
    by blast
qed

lemma sample_row_valid: "valid_row (to_row ''c1'' ''2024'' sample_question)"
  unfolding valid_row_to_row by (simp add: year_2024 sample_question_def is_space_def)

lemma empty_row_invalid:
  "\<not> valid_row (to_row ''c1'' ''2024'' (sample_question\<lparr>question_statement := []\<rparr>))"
  unfolding valid_row_to_row by simp

theorem savePdfQuestions_filter_witness:
  "filter valid_row (map (to_row ''c1'' ''2024'')
       [sample_question\<lparr>question_statement := []\<rparr>, sample_question])
     = [to_row ''c1'' ''2024'' sample_question] \<and>
   snd (savePdfQuestions accepting_store ''c1''
          [sample_question\<lparr>question_statement := []\<rparr>, sample_question] ''2024'' [])
     = [[to_row ''c1'' ''2024'' sample_question]] \<and>
   savePdfQuestions accepting_store ''c1''
       [sample_question\<lparr>question_statement := []\<rparr>] ''2024'' []
     = (Inl (Error (Some ''No valid questions to save'')), []) \<and>
   valid_row (to_row ''c1'' ''2024'' sample_question)"
proof -
  let ?bad = "sample_question\<lparr>question_statement := []\<rparr>"
  let ?row = "to_row ''c1'' ''2024'' sample_question"
  have f: "filter valid_row (map (to_row ''c1'' ''2024'') [?bad, sample_question]) = [?row]"
    using sample_row_valid empty_row_invalid by simp
  then have ne: "filter valid_row (map (to_row ''c1'' ''2024'') [?bad, sample_question]) \<noteq> []"
    by simp
  from savePdfQuestions_filter [of "''c1''" "''2024''" "[?bad, sample_question]"
      accepting_store "[]"]
  have "filter valid_row (map (to_row ''c1'' ''2024'') [?bad, sample_question]) \<noteq> [] \<longrightarrow>
      snd (savePdfQuestions accepting_store ''c1'' [?bad, sample_question] ''2024'' [])
        = [] @ [filter valid_row (map (to_row ''c1'' ''2024'') [?bad, sample_question])]"
    by (rule conjunct1 [OF conjunct2])
  with ne have "snd (savePdfQuestions accepting_store ''c1'' [?bad, sample_question] ''2024'' [])
        = [] @ [filter valid_row (map (to_row ''c1'' ''2024'') [?bad, sample_question])]"
    by (rule rev_mp)
  then have a: "snd (savePdfQuestions accepting_store ''c1'' [?bad, sample_question] ''2024'' [])
     = [[?row]]"
    unfolding f by simp
  have e: "filter valid_row (map (to_row ''c1'' ''2024'') [?bad]) = []"
    using empty_row_invalid by simp
  from savePdfQuestions_filter [of "''c1''" "''2024''" "[?bad]" accepting_store "[]"]
  have "filter valid_row (map (to_row ''c1'' ''2024'') [?bad]) = [] \<longrightarrow>
      savePdfQuestions accepting_store ''c1'' [?bad] ''2024'' []
        = (Inl (Error (Some ''No valid questions to save'')), [])"
    by (rule conjunct1)
  with e have b: "savePdfQuestions accepting_store ''c1'' [?bad] ''2024'' []
     = (Inl (Error (Some ''No valid questions to save'')), [])"
    by (rule rev_mp)
  from f a b sample_row_valid show ?thesis
    by (intro conjI)
qed

text \<open>
  The claim as stated fails: a record whose statement is two spaces is not empty, has a
  recognised type, a course and the year 2024, and is filtered out.
\<close>

theorem blank_statement_not_saved:
  "question_statement (sample_question\<lparr>question_statement := ''  ''\<rparr>) \<noteq> [] \<and>
   question_type (sample_question\<lparr>question_statement := ''  ''\<rparr>)
     \<in> set [''MCQ'', ''MSQ'', ''NAT'', ''Subjective''] \<and>
   ''c1'' \<noteq> [] \<and> parseInt ''2024'' = Some 2024 \<and>
   savePdfQuestions accepting_store ''c1''
       [sample_question\<lparr>question_statement := ''  ''\<rparr>] ''2024'' []
     = (Inl (Error (Some ''No valid questions to save'')), [])"
proof -
  have "\<not> valid_row (to_row ''c1'' ''2024'' (sample_question\<lparr>question_statement := ''  ''\<rparr>))"
    unfolding valid_row_to_row by (simp add: is_space_def)
  then have "savePdfQuestions accepting_store ''c1''
       [sample_question\<lparr>question_statement := ''  ''\<rparr>] ''2024'' []
     = (Inl (Error (Some ''No valid questions to save'')), [])"
    by (simp add: savePdfQuestions_none_valid)
  then show ?thesis
    by (simp add: year_2024 sample_question_def)
qed

text \<open>The two ends of the year range that the input field offers (\<^verbatim>\<open>min="2000"\<close>,
  \<^verbatim>\<open>max="2030"\<close>) are rejected by the filter.\<close>

lemma boundary_years_rejected:
  "\<not> valid_row (to_row ''c1'' ''2000'' sample_question) \<and>
   \<not> valid_row (to_row ''c1'' ''2030'' sample_question)"
proof -
  have "parseInt ''2000'' = Some 2000" "parseInt ''2030'' = Some 2030"
    by (simp_all add: parseInt_def parse_digits_def digit_value_def is_space_def Let_def)
  then show ?thesis
    unfolding valid_row_to_row by simp
qed

section \<open>Properties of the page loops\<close>

lemma run_outcomes_length: "length (run_outcomes call pages w) = length pages"
  by (induction pages arbitrary: w) (auto split: prod.splits)

lemma contribution_simps:
  "contribution (Inl error) = []" "contribution (Inr questions) = questions"
  by (simp_all add: contribution_def)

lemma first_pass_closed:
  "first_pass API_KEYS g parse pages sharedDescriptions w
     = (foldl record_description sharedDescriptions
          (zip pages (run_outcomes (structural_call API_KEYS g parse) pages w)),
        run_world (structural_call API_KEYS g parse) pages w)"
proof (induction pages arbitrary: sharedDescriptions w)
  case Nil
  then show ?case by simp
next
  case (Cons pageNum pages)
  obtain r w' where c: "analyzePageStructure API_KEYS g parse w = (r, w')"
    by (cases "analyzePageStructure API_KEYS g parse w") auto
  show ?case
  proof (cases r)
    case (Inl error)
    with c Cons.IH [of sharedDescriptions w'] show ?thesis
      by (simp add: structural_call_def record_description_def)
  next
    case (Inr pageAnalysis)
    with c Cons.IH [of _ w'] show ?thesis
      by (simp add: structural_call_def record_description_def)
  qed
qed

lemma second_pass_closed:
  "second_pass API_KEYS g parse pages allQuestions w
     = (allQuestions @ concat (map contribution
          (run_outcomes (extractQuestionsWithContext API_KEYS g parse) pages w)),
        run_world (extractQuestionsWithContext API_KEYS g parse) pages w)"
proof (induction pages arbitrary: allQuestions w)
  case Nil
  then show ?case by simp
next
  case (Cons pageNum pages)
  obtain r w' where c: "extractQuestionsWithContext API_KEYS g parse pageNum w = (r, w')"
    by (cases "extractQuestionsWithContext API_KEYS g parse pageNum w") auto
  show ?case
  proof (cases r)
    case (Inl error)
    with c Cons.IH [of allQuestions w'] show ?thesis
      by (simp add: contribution_simps)
  next
    case (Inr questions)
    with c Cons.IH [of "allQuestions @ questions" w'] show ?thesis
      by (simp add: contribution_simps)
  qed
qed

lemma scan_pages_closed:
  "scan_pages API_KEYS g parse pages pdfQuestions w
     = (pdfQuestions @ concat (map contribution
          (run_outcomes (performExtraction API_KEYS g parse) pages w)),
        run_world (performExtraction API_KEYS g parse) pages w)"
proof (induction pages arbitrary: pdfQuestions w)
  case Nil
  then show ?case by simp
next
  case (Cons pageNum pages)
  obtain r w' where c: "performExtraction API_KEYS g parse pageNum w = (r, w')"
    by (cases "performExtraction API_KEYS g parse pageNum w") auto
  show ?case
  proof (cases r)
    case (Inl error)
    with c Cons.IH [of pdfQuestions w'] show ?thesis
      by (simp add: contribution_simps)
  next
    case (Inr questions)
    with c Cons.IH [of "pdfQuestions @ questions" w'] Cons.IH [of pdfQuestions w'] show ?thesis
      by (simp add: contribution_simps)
  qed
qed

lemma analyzePageStructure_from_requests:
  "retryCount < length API_KEYS \<Longrightarrow>
     Suc (length (requests w))
       \<le> length (requests (snd (analyzePageStructure_from API_KEYS g p retryCount w)))"
proof (induction "length API_KEYS - retryCount" arbitrary: retryCount w)
  case 0
  then show ?case by simp
next
  case (Suc d)
  obtain r w' where t: "analyzePageStructure_try API_KEYS g p w = (r, w')"
    by (cases "analyzePageStructure_try API_KEYS g p w") auto
  note rq = analyzePageStructure_try_requests [OF t]
  show ?case
  proof (cases r)
    case (Inr x)
    with Suc.prems t rq show ?thesis
      by (simp add: analyzePageStructure_from.simps [of _ _ _ retryCount])
  next
    case (Inl e)
    show ?thesis
    proof (cases "is_rate_limit e \<and> retryCount + 1 < length API_KEYS")
      case True
      with Suc.hyps(2) have "d = length API_KEYS - (retryCount + 1)"
        by simp
      from Suc.hyps(1) [OF this, of w'] True rq
      have "Suc (length (requests w))
          \<le> length (requests (snd (analyzePageStructure_from API_KEYS g p (retryCount + 1) w')))"
        by simp
      with Suc.prems t Inl True show ?thesis
        by (simp add: analyzePageStructure_from.simps [of _ _ _ retryCount] Let_def)
    next
      case False
      with Suc.prems t Inl rq show ?thesis
        by (auto simp: analyzePageStructure_from.simps [of _ _ _ retryCount] Let_def)
    qed
  qed
qed

lemma extractQuestionsWithContext_from_requests:
  "retryCount < length API_KEYS \<Longrightarrow>
     Suc (length (requests w))
       \<le> length (requests (snd (extractQuestionsWithContext_from API_KEYS g p n retryCount w)))"
proof (induction "length API_KEYS - retryCount" arbitrary: retryCount w)
  case 0
  then show ?case by simp
next
  case (Suc d)
  obtain r w' where t: "extractQuestionsWithContext_try API_KEYS g p n w = (r, w')"
    by (cases "extractQuestionsWithContext_try API_KEYS g p n w") auto
  note rq = extractQuestionsWithContext_try_requests [OF t]
  show ?case
  proof (cases r)
    case (Inr x)
    with Suc.prems t rq show ?thesis
      by (simp add: extractQuestionsWithContext_from.simps [of _ _ _ _ retryCount])
  next
    case (Inl e)
    show ?thesis
    proof (cases "is_rate_limit e \<and> retryCount + 1 < length API_KEYS")
      case True
      with Suc.hyps(2) have "d = length API_KEYS - (retryCount + 1)"
        by simp
      from Suc.hyps(1) [OF this, of w'] True rq
      have "Suc (length (requests w))
          \<le> length (requests (snd (extractQuestionsWithContext_from API_KEYS g p n
                 (retryCount + 1) w')))"
        by simp
      with Suc.prems t Inl True show ?thesis
        by (simp add: extractQuestionsWithContext_from.simps [of _ _ _ _ retryCount] Let_def)
    next
      case False
      with Suc.prems t Inl rq show ?thesis
        by (auto simp: extractQuestionsWithContext_from.simps [of _ _ _ _ retryCount] Let_def)
    qed
  qed
qed

lemma run_world_requests:
  assumes "\<And>pageNum w. Suc (length (requests w)) \<le> length (requests (snd (call pageNum w)))"
  shows "length (requests w) + length pages \<le> length (requests (run_world call pages w))"
proof (induction pages arbitrary: w)
  case Nil
  then show ?case by simp
next
  case (Cons pageNum pages)
  from Cons.IH [of "snd (call pageNum w)"] assms [of w pageNum] show ?case
    by simp
qed

lemma every_page_has_a_request:
  assumes "API_KEYS \<noteq> []"
  shows "length (requests w) + length pages
           \<le> length (requests (run_world (structural_call API_KEYS g pf) pages w))"
    and "length (requests w) + length pages
           \<le> length (requests (run_world (extractQuestionsWithContext API_KEYS g pq) pages w))"
    and "length (requests w) + length pages
           \<le> length (requests (run_world (performExtraction API_KEYS g pq) pages w))"
proof -
  from assms have pos: "0 < length API_KEYS"
    by simp
  show "length (requests w) + length pages
           \<le> length (requests (run_world (structural_call API_KEYS g pf) pages w))"
    by (rule run_world_requests)
      (simp add: structural_call_def analyzePageStructure_def
        analyzePageStructure_from_requests [OF pos])
  show "length (requests w) + length pages
           \<le> length (requests (run_world (extractQuestionsWithContext API_KEYS g pq) pages w))"
    by (rule run_world_requests)
      (simp add: extractQuestionsWithContext_def extractQuestionsWithContext_from_requests [OF pos])
  show "length (requests w) + length pages
           \<le> length (requests (run_world (performExtraction API_KEYS g pq) pages w))"
    by (rule run_world_requests)
      (simp add: performExtraction_def performExtraction_from_requests [OF pos])
qed

lemma enhancedQuestionExtraction_closed:
  "enhancedQuestionExtraction API_KEYS g parse_findings parse images startPageNumber w
     = second_pass API_KEYS g parse (map (\<lambda>i. startPageNumber + i) [0..<length images]) []
         (run_world (structural_call API_KEYS g parse_findings)
            (map (\<lambda>i. startPageNumber + i) [0..<length images]) w)"
  by (simp add: enhancedQuestionExtraction_def first_pass_closed Let_def)

text \<open>
  Claim C9, as amended. Each of the three page loops makes the call for every page, in
  page order, whatever the calls before it did: with a non-empty pool every page costs at
  least one request, and the loop ends in the state that the call for the last page
  leaves. A call of the extraction pass, or of the single pass, that ends with an error
  adds no question for its page and changes nothing of what was collected; the list
  returned is the concatenation, in page order, of the questions of the calls that
  returned. A call of the structural pass that ends with an error only leaves its page
  without a shared description: the extraction pass is still made for that page, and the
  questions it finds are returned.
\<close>

theorem page_failure_does_not_abort:
  "(analyzePageStructure API_KEYS g parse_findings w = (Inl error, w') \<longrightarrow>
      first_pass API_KEYS g parse_findings (pageNum # pages) sharedDescriptions w
        = first_pass API_KEYS g parse_findings pages sharedDescriptions w') \<and>
   (extractQuestionsWithContext API_KEYS g parse pageNum w = (Inl error, w') \<longrightarrow>
      second_pass API_KEYS g parse (pageNum # pages) allQuestions w
        = second_pass API_KEYS g parse pages allQuestions w') \<and>
   (performExtraction API_KEYS g parse pageNum w = (Inl error, w') \<longrightarrow>
      scan_pages API_KEYS g parse (pageNum # pages) allQuestions w
        = scan_pages API_KEYS g parse pages allQuestions w') \<and>
   first_pass API_KEYS g parse_findings pages sharedDescriptions w
     = (foldl record_description sharedDescriptions
          (zip pages (run_outcomes (structural_call API_KEYS g parse_findings) pages w)),
        run_world (structural_call API_KEYS g parse_findings) pages w) \<and>
   second_pass API_KEYS g parse pages allQuestions w
     = (allQuestions @ concat (map contribution
          (run_outcomes (extractQuestionsWithContext API_KEYS g parse) pages w)),
        run_world (extractQuestionsWithContext API_KEYS g parse) pages w) \<and>
   scan_pages API_KEYS g parse pages allQuestions w
     = (allQuestions @ concat (map contribution
          (run_outcomes (performExtraction API_KEYS g parse) pages w)),
        run_world (performExtraction API_KEYS g parse) pages w) \<and>
   enhancedQuestionExtraction API_KEYS g parse_findings parse images startPageNumber w
     = second_pass API_KEYS g parse (map (\<lambda>i. startPageNumber + i) [0..<length images]) []
         (run_world (structural_call API_KEYS g parse_findings)
            (map (\<lambda>i. startPageNumber + i) [0..<length images]) w) \<and>
   fst (enhancedQuestionExtraction API_KEYS g parse_findings parse images startPageNumber w)
     = concat (map contribution
         (run_outcomes (extractQuestionsWithContext API_KEYS g parse)
            (map (\<lambda>i. startPageNumber + i) [0..<length images])
            (run_world (structural_call API_KEYS g parse_findings)
               (map (\<lambda>i. startPageNumber + i) [0..<length images]) w))) \<and>
   fst (scan_pdf_pages API_KEYS g parse images w)
     = concat (map contribution
         (run_outcomes (performExtraction API_KEYS g parse) (map Suc [0..<length images]) w)) \<and>
   length (run_outcomes (structural_call API_KEYS g parse_findings) pages w) = length pages \<and>
   length (run_outcomes (extractQuestionsWithContext API_KEYS g parse) pages w) = length pages \<and>
   length (run_outcomes (performExtraction API_KEYS g parse) pages w) = length pages \<and>
   (API_KEYS \<noteq> [] \<longrightarrow>
      length (requests w) + length pages
        \<le> length (requests (run_world (structural_call API_KEYS g parse_findings) pages w)) \<and>
      length (requests w) + length pages
        \<le> length (requests (run_world (extractQuestionsWithContext API_KEYS g parse) pages w)) \<and>
      length (requests w) + length pages
        \<le> length (requests (run_world (performExtraction API_KEYS g parse) pages w))) \<and>
   contribution (Inl error :: js_error + ExtractedQuestion list) = []"
proof -
  have e: "enhancedQuestionExtraction API_KEYS g parse_findings parse images startPageNumber w
     = second_pass API_KEYS g parse (map (\<lambda>i. startPageNumber + i) [0..<length images]) []
         (run_world (structural_call API_KEYS g parse_findings)
            (map (\<lambda>i. startPageNumber + i) [0..<length images]) w)"
    by (rule enhancedQuestionExtraction_closed)
  have r: "API_KEYS \<noteq> [] \<longrightarrow>
      length (requests w) + length pages
        \<le> length (requests (run_world (structural_call API_KEYS g parse_findings) pages w)) \<and>
      length (requests w) + length pages
        \<le> length (requests (run_world (extractQuestionsWithContext API_KEYS g parse) pages w)) \<and>
      length (requests w) + length pages
        \<le> length (requests (run_world (performExtraction API_KEYS g parse) pages w))"
    using every_page_has_a_request by blast
  have s: "(analyzePageStructure API_KEYS g parse_findings w = (Inl error, w') \<longrightarrow>
      first_pass API_KEYS g parse_findings (pageNum # pages) sharedDescriptions w
        = first_pass API_KEYS g parse_findings pages sharedDescriptions w')"
    "(extractQuestionsWithContext API_KEYS g parse pageNum w = (Inl error, w') \<longrightarrow>
      second_pass API_KEYS g parse (pageNum # pages) allQuestions w
        = second_pass API_KEYS g parse pages allQuestions w')"
    "(performExtraction API_KEYS g parse pageNum w = (Inl error, w') \<longrightarrow>
      scan_pages API_KEYS g parse (pageNum # pages) allQuestions w
        = scan_pages API_KEYS g parse pages allQuestions w')"
    by simp_all
  have f: "fst (scan_pdf_pages API_KEYS g parse images w)
     = concat (map contribution
         (run_outcomes (performExtraction API_KEYS g parse) (map Suc [0..<length images]) w))"
    by (simp add: scan_pdf_pages_def scan_pages_closed)
  have f2: "fst (enhancedQuestionExtraction API_KEYS g parse_findings parse images startPageNumber w)
     = concat (map contribution
         (run_outcomes (extractQuestionsWithContext API_KEYS g parse)
            (map (\<lambda>i. startPageNumber + i) [0..<length images])
            (run_world (structural_call API_KEYS g parse_findings)
               (map (\<lambda>i. startPageNumber + i) [0..<length images]) w)))"
    unfolding e by (simp add: second_pass_closed)
  show ?thesis
    by (intro conjI s first_pass_closed second_pass_closed scan_pages_closed e f2 f
        run_outcomes_length r contribution_simps(1))
qed

lemma sample_repaired_located: "locate_json sample_repaired = Some sample_repaired"
  by (simp add: locate_json_def match_array_def match_span_def sample_repaired_def
      sample_json_def quoted_def)

lemma three_pages:
  "map (\<lambda>i. 1 + i) [0..<length [''p1'', ''p2'', ''p3'']] = [1, 2, 3]"
  "map Suc [0..<length [''p1'', ''p2'', ''p3'']] = [1, 2, 3]"
  by (simp_all add: upt_rec numeral_2_eq_2 numeral_3_eq_3)

lemma scan_example:
  "run_outcomes (performExtraction [''k1''] page2_fails sample_parse)
      [1, 2, 3] world0
    = [Inr [stamp 1 sample_question],
       Inl (Error (Some ''All 1 API keys exhausted for page 2: fetch failed'')),
       Inr [stamp 3 sample_question]]"
proof -
  have n: "show_nat (Suc 0) = ''1''" "show_nat (Suc (Suc 0)) = ''2''"
    by (simp_all add: show_nat.simps digit_char_def)
  show ?thesis
    by (simp add: numeral_2_eq_2 performExtraction_def performExtraction_from.simps [of _ _ _ _ 0]
      performExtraction_try_def call_model_def world0_def usage_of_def page2_fails_def
      performExtraction_decode_def sample_repaired_located sample_second exhausted_error_def
      message_text_def fetch_failed_not_rate_limit n numeral_3_eq_3)
qed

lemma first_pass_example:
  "run_world (structural_call [''k1''] page2_fails_twice findings_parse)
      [1, 2, 3] world0
     = \<lparr>keyUsageCount = [''k1'' \<mapsto> 3], requests = [''k1'', ''k1'', ''k1'']\<rparr>"
  by (simp add: numeral_2_eq_2 structural_call_def analyzePageStructure_def
      analyzePageStructure_from.simps [of _ _ _ 0]
      analyzePageStructure_try_def call_model_def world0_def usage_of_def page2_fails_twice_def
      fetch_failed_not_rate_limit numeral_3_eq_3 no_findings_def findings_parse_def
      split: option.splits)

lemma second_pass_example:
  "run_outcomes (extractQuestionsWithContext [''k1''] page2_fails_twice sample_parse)
      [1, 2, 3]
      \<lparr>keyUsageCount = [''k1'' \<mapsto> 3], requests = [''k1'', ''k1'', ''k1'']\<rparr>
    = [Inr [stamp 1 sample_question], Inl (Error (Some ''fetch failed'')),
       Inr [stamp 3 sample_question]]"
  by (simp add: numeral_2_eq_2 extractQuestionsWithContext_def
      extractQuestionsWithContext_from.simps [of _ _ _ _ 0]
      extractQuestionsWithContext_try_def call_model_def usage_of_def page2_fails_twice_def
      extractQuestionsWithContext_decode_def sample_repaired_located sample_second
      fetch_failed_not_rate_limit numeral_3_eq_3)

lemma structural_example:
  "run_outcomes (structural_call [''k1''] page2_fails findings_parse)
      [1, 2, 3] world0
     = [Inr no_findings, Inl (Error (Some ''fetch failed'')), Inr no_findings]"
  "run_world (structural_call [''k1''] page2_fails findings_parse)
      [1, 2, 3] world0
     = \<lparr>keyUsageCount = [''k1'' \<mapsto> 3], requests = [''k1'', ''k1'', ''k1'']\<rparr>"
  by (simp_all add: numeral_2_eq_2 structural_call_def analyzePageStructure_def
      analyzePageStructure_from.simps [of _ _ _ 0]
      analyzePageStructure_try_def call_model_def world0_def usage_of_def page2_fails_def
      fetch_failed_not_rate_limit numeral_3_eq_3 no_findings_def findings_parse_def
      split: option.splits)

lemma extraction_after_structural_failure:
  "run_outcomes (extractQuestionsWithContext [''k1''] page2_fails sample_parse)
      [1, 2, 3]
      \<lparr>keyUsageCount = [''k1'' \<mapsto> 3], requests = [''k1'', ''k1'', ''k1'']\<rparr>
    = [Inr [stamp 1 sample_question], Inr [stamp 2 sample_question],
       Inr [stamp 3 sample_question]]"
  by (simp add: numeral_2_eq_2 extractQuestionsWithContext_def
      extractQuestionsWithContext_from.simps [of _ _ _ _ 0]
      extractQuestionsWithContext_try_def call_model_def usage_of_def page2_fails_def
      extractQuestionsWithContext_decode_def sample_repaired_located sample_second
      numeral_3_eq_3)

lemma page2_calls:
  "analyzePageStructure [''k1''] page2_fails findings_parse
       \<lparr>keyUsageCount = [''k1'' \<mapsto> Suc 0], requests = [''k1'']\<rparr>
     = (Inl (Error (Some ''fetch failed'')),
        \<lparr>keyUsageCount = [''k1'' \<mapsto> Suc (Suc 0)], requests = [''k1'', ''k1'']\<rparr>)"
  "extractQuestionsWithContext [''k1''] page2_fails sample_parse 2
       \<lparr>keyUsageCount = [''k1'' \<mapsto> Suc 0], requests = [''k1'']\<rparr>
     = (Inl (Error (Some ''fetch failed'')),
        \<lparr>keyUsageCount = [''k1'' \<mapsto> Suc (Suc 0)], requests = [''k1'', ''k1'']\<rparr>)"
  "performExtraction [''k1''] page2_fails sample_parse 2
       \<lparr>keyUsageCount = [''k1'' \<mapsto> Suc 0], requests = [''k1'']\<rparr>
     = (Inl (Error (Some ''All 1 API keys exhausted for page 2: fetch failed'')),
        \<lparr>keyUsageCount = [''k1'' \<mapsto> Suc (Suc 0)], requests = [''k1'', ''k1'']\<rparr>)"
proof -
  have n: "show_nat (Suc 0) = ''1''" "show_nat 2 = ''2''"
    by (simp_all add: show_nat.simps digit_char_def)
  show "analyzePageStructure [''k1''] page2_fails findings_parse
       \<lparr>keyUsageCount = [''k1'' \<mapsto> Suc 0], requests = [''k1'']\<rparr>
     = (Inl (Error (Some ''fetch failed'')),
        \<lparr>keyUsageCount = [''k1'' \<mapsto> Suc (Suc 0)], requests = [''k1'', ''k1'']\<rparr>)"
    by (simp add: analyzePageStructure_def analyzePageStructure_from.simps [of _ _ _ 0]
        analyzePageStructure_try_def call_model_def usage_of_def page2_fails_def
        fetch_failed_not_rate_limit findings_parse_def)
  show "extractQuestionsWithContext [''k1''] page2_fails sample_parse 2
       \<lparr>keyUsageCount = [''k1'' \<mapsto> Suc 0], requests = [''k1'']\<rparr>
     = (Inl (Error (Some ''fetch failed'')),
        \<lparr>keyUsageCount = [''k1'' \<mapsto> Suc (Suc 0)], requests = [''k1'', ''k1'']\<rparr>)"
    by (simp add: extractQuestionsWithContext_def
        extractQuestionsWithContext_from.simps [of _ _ _ _ 0]
        extractQuestionsWithContext_try_def call_model_def usage_of_def page2_fails_def
        fetch_failed_not_rate_limit)
  show "performExtraction [''k1''] page2_fails sample_parse 2
       \<lparr>keyUsageCount = [''k1'' \<mapsto> Suc 0], requests = [''k1'']\<rparr>
     = (Inl (Error (Some ''All 1 API keys exhausted for page 2: fetch failed'')),
        \<lparr>keyUsageCount = [''k1'' \<mapsto> Suc (Suc 0)], requests = [''k1'', ''k1'']\<rparr>)"
    by (simp add: performExtraction_def performExtraction_from.simps [of _ _ _ _ 0]
        performExtraction_try_def call_model_def usage_of_def page2_fails_def
        fetch_failed_not_rate_limit exhausted_error_def message_text_def n)
qed

theorem page_failure_does_not_abort_witness:
  "first_pass [''k1''] page2_fails findings_parse [2, 3] Map.empty
       \<lparr>keyUsageCount = [''k1'' \<mapsto> Suc 0], requests = [''k1'']\<rparr>
     = first_pass [''k1''] page2_fails findings_parse [3] Map.empty
         \<lparr>keyUsageCount = [''k1'' \<mapsto> Suc (Suc 0)], requests = [''k1'', ''k1'']\<rparr> \<and>
   second_pass [''k1''] page2_fails sample_parse [2, 3] [stamp 1 sample_question]
       \<lparr>keyUsageCount = [''k1'' \<mapsto> Suc 0], requests = [''k1'']\<rparr>
     = second_pass [''k1''] page2_fails sample_parse [3] [stamp 1 sample_question]
         \<lparr>keyUsageCount = [''k1'' \<mapsto> Suc (Suc 0)], requests = [''k1'', ''k1'']\<rparr> \<and>
   scan_pages [''k1''] page2_fails sample_parse [2, 3] [stamp 1 sample_question]
       \<lparr>keyUsageCount = [''k1'' \<mapsto> Suc 0], requests = [''k1'']\<rparr>
     = scan_pages [''k1''] page2_fails sample_parse [3] [stamp 1 sample_question]
         \<lparr>keyUsageCount = [''k1'' \<mapsto> Suc (Suc 0)], requests = [''k1'', ''k1'']\<rparr> \<and>
   fst (enhancedQuestionExtraction [''k1''] page2_fails_twice findings_parse sample_parse
          [''p1'', ''p2'', ''p3''] 1 world0)
     = [stamp 1 sample_question, stamp 3 sample_question] \<and>
   fst (scan_pdf_pages [''k1''] page2_fails sample_parse [''p1'', ''p2'', ''p3''] world0)
     = [stamp 1 sample_question, stamp 3 sample_question] \<and>
   [''k1''] \<noteq> [] \<and>
   3 \<le> length (requests (run_world (performExtraction [''k1''] page2_fails sample_parse)
      [1, 2, 3] world0))"
proof -
  let ?w1 = "\<lparr>keyUsageCount = [''k1'' \<mapsto> Suc 0], requests = [''k1'']\<rparr>"
  let ?w2 = "\<lparr>keyUsageCount = [''k1'' \<mapsto> Suc (Suc 0)], requests = [''k1'', ''k1'']\<rparr>"
  note th = page_failure_does_not_abort [of "[''k1'']" page2_fails findings_parse ?w1
      "Error (Some ''fetch failed'')" ?w2 2 "[3]" Map.empty sample_parse
      "[stamp 1 sample_question]"]
  from th [THEN conjunct1] page2_calls(1)
  have a: "first_pass [''k1''] page2_fails findings_parse [2, 3] Map.empty ?w1
      = first_pass [''k1''] page2_fails findings_parse [3] Map.empty ?w2"
    by (rule mp)
  from th [THEN conjunct2, THEN conjunct1] page2_calls(2)
  have b: "second_pass [''k1''] page2_fails sample_parse [2, 3] [stamp 1 sample_question] ?w1
      = second_pass [''k1''] page2_fails sample_parse [3] [stamp 1 sample_question] ?w2"
    by (rule mp)
  note th3 = page_failure_does_not_abort [of "[''k1'']" page2_fails findings_parse ?w1
      "Error (Some ''All 1 API keys exhausted for page 2: fetch failed'')" ?w2 2 "[3]"
      Map.empty sample_parse "[stamp 1 sample_question]"]
  from th3 [THEN conjunct2, THEN conjunct2, THEN conjunct1] page2_calls(3)
  have c: "scan_pages [''k1''] page2_fails sample_parse [2, 3] [stamp 1 sample_question] ?w1
      = scan_pages [''k1''] page2_fails sample_parse [3] [stamp 1 sample_question] ?w2"
    by (rule mp)
  note th4 = page_failure_does_not_abort [of "[''k1'']" page2_fails_twice findings_parse world0 _ _ _ _ _
      sample_parse _ "[''p1'', ''p2'', ''p3'']" 1]
  from th4 [THEN conjunct2, THEN conjunct2, THEN conjunct2, THEN conjunct2, THEN conjunct2,
      THEN conjunct2, THEN conjunct2, THEN conjunct1]
  have d: "fst (enhancedQuestionExtraction [''k1''] page2_fails_twice findings_parse sample_parse
          [''p1'', ''p2'', ''p3''] 1 world0)
     = [stamp 1 sample_question, stamp 3 sample_question]"
    unfolding three_pages first_pass_example second_pass_example
    by (simp add: contribution_simps)
  note th5 = page_failure_does_not_abort [of "[''k1'']" page2_fails _ world0 _ _ _ "[1, 2, 3]" _
      sample_parse _ "[''p1'', ''p2'', ''p3'']" 0]
  from th5 [THEN conjunct2, THEN conjunct2, THEN conjunct2, THEN conjunct2, THEN conjunct2,
      THEN conjunct2, THEN conjunct2, THEN conjunct2, THEN conjunct1]
  have e: "fst (scan_pdf_pages [''k1''] page2_fails sample_parse [''p1'', ''p2'', ''p3''] world0)
     = [stamp 1 sample_question, stamp 3 sample_question]"
    unfolding three_pages scan_example by (simp add: contribution_simps)
  have k: "[''k1''] \<noteq> []"
    by simp
  from th5 [THEN conjunct2, THEN conjunct2, THEN conjunct2, THEN conjunct2, THEN conjunct2,
      THEN conjunct2, THEN conjunct2, THEN conjunct2, THEN conjunct2, THEN conjunct2,
      THEN conjunct2, THEN conjunct2, THEN conjunct1] k
  have "length (requests world0) + length [1, 2, 3::nat]
        \<le> length (requests (run_world (structural_call [''k1''] page2_fails findings_parse) [1, 2, 3] world0)) \<and>
      length (requests world0) + length [1, 2, 3::nat]
        \<le> length (requests (run_world (extractQuestionsWithContext [''k1''] page2_fails sample_parse) [1, 2, 3] world0)) \<and>
      length (requests world0) + length [1, 2, 3::nat]
        \<le> length (requests (run_world (performExtraction [''k1''] page2_fails sample_parse) [1, 2, 3] world0))"
    by (rule mp)
  then have f: "3 \<le> length (requests (run_world (performExtraction [''k1''] page2_fails sample_parse)
      [1, 2, 3] world0))"
    by (simp add: world0_def)
  from a b c d e k f show ?thesis
    by (intro conjI)
qed

text \<open>
  The claim as stated fails for the structural pass. In a document of three pages, read
  with one key, only the structural call for page 2 fails; the extraction pass for page
  2 is made all the same, and the question it finds is returned with those of pages 1
  and 3.
\<close>

theorem structural_failure_keeps_page:
  "run_outcomes (structural_call [''k1''] page2_fails findings_parse) [1, 2, 3] world0
     = [Inr no_findings, Inl (Error (Some ''fetch failed'')), Inr no_findings] \<and>
   fst (enhancedQuestionExtraction [''k1''] page2_fails findings_parse sample_parse
          [''p1'', ''p2'', ''p3''] 1 world0)
     = [stamp 1 sample_question, stamp 2 sample_question, stamp 3 sample_question] \<and>
   page_number (stamp 2 sample_question) = 2"
proof -
  have "fst (enhancedQuestionExtraction [''k1''] page2_fails findings_parse sample_parse
          [''p1'', ''p2'', ''p3''] 1 world0)
     = [stamp 1 sample_question, stamp 2 sample_question, stamp 3 sample_question]"
    unfolding enhancedQuestionExtraction_closed second_pass_closed
      three_pages structural_example extraction_after_structural_failure
    by (simp add: contribution_simps)
  with structural_example(1) show ?thesis
    by (simp add: stamp_fields)
qed

end
